theory Spec2Isabelle
  imports Main
begin

section \<open>Pairing state (transfer.ts)\<close>

text \<open>
  The receiver keeps one \<open>PairingState\<close> object for all sessions. A code is a
  JavaScript \<open>string | null\<close>; the source tests codes by truthiness
  (\<open>!pairingState.currentCode\<close>), under which \<open>null\<close> and the empty string behave alike.
  Times are integer milliseconds (\<open>Date.now()\<close>).
\<close>

record PairingState =
  currentCode :: "string option"
  previousCode :: "string option"
  previousCodeValidUntilMs :: int
  activeTransfers :: int

definition truthy :: "string option \<Rightarrow> bool" where
  "truthy c = (case c of None \<Rightarrow> False | Some s \<Rightarrow> s \<noteq> [])"

text \<open>\<open>isPairCodeAccepted\<close>; \<open>now\<close> is the value of \<open>Date.now()\<close> at the call.\<close>

definition isPairCodeAccepted :: "PairingState \<Rightarrow> int \<Rightarrow> string option \<Rightarrow> bool" where
  "isPairCodeAccepted pairingState now incomingCode =
     (if \<not> truthy (currentCode pairingState) then True
      else if incomingCode = currentCode pairingState then True
      else if truthy (previousCode pairingState)
              \<and> incomingCode = previousCode pairingState
              \<and> now \<le> previousCodeValidUntilMs pairingState then True
      else False)"

datatype reason = Once | Ttl

text \<open>
  The options of \<open>startReceiver\<close> that the pairing and transfer code reads. The injected
  \<open>generatePairCode\<close> is a closure with hidden state: its \<open>k\<close>-th call (from 0) returns
  \<open>g k\<close>, and the number of calls made so far is part of the receiver's state.
  \<open>confirmTransfer\<close> returns a boolean or an object \<open>{accept, message?}\<close>.
\<close>

record TransferConfirmRequest =
  from_addr :: string
  req_relativePath :: string
  req_fileSize :: int

datatype TransferConfirmResult =
    DecisionBool bool
  | DecisionObject bool "string option"

record ListenOptions =
  outputDir :: string
  pairCode :: "string option"
  rotatePairCodePerTransfer :: bool
  pairCodeTtlSeconds :: "int option"
  generatePairCode :: "(nat \<Rightarrow> string) option"
  confirmTransfer :: "(TransferConfirmRequest \<Rightarrow> TransferConfirmResult) option"

text \<open>
  What the receiver's closures share: the pairing state, the number of calls made to the
  generator, and the calls made to \<open>onPairCodeChange\<close> (latest last).
\<close>

record receiver =
  pairing :: PairingState
  genCalls :: nat
  notified :: "(string \<times> reason) list"

text \<open>\<open>options.pairCodeTtlSeconds ? options.pairCodeTtlSeconds * 1000 : null\<close>\<close>

definition ttlMs :: "ListenOptions \<Rightarrow> int option" where
  "ttlMs options =
     (case pairCodeTtlSeconds options of
        None \<Rightarrow> None
      | Some s \<Rightarrow> if s = 0 then None else Some (s * 1000))"

text \<open>
  The loop \<open>for (let i = 0; i < 5 && nextCode === oldCode; i += 1) nextCode = generate()\<close>,
  which both rotation functions contain.
\<close>

function regenerate :: "(nat \<Rightarrow> string) \<Rightarrow> string option \<Rightarrow> nat \<Rightarrow> string \<Rightarrow> nat \<Rightarrow> string \<times> nat" where
  "regenerate g oldCode i nextCode calls =
     (if i < 5 \<and> Some nextCode = oldCode
      then regenerate g oldCode (i + 1) (g calls) (calls + 1)
      else (nextCode, calls))"
  by pat_completeness auto
termination
  by (relation "measure (\<lambda>(g, oldCode, i, nextCode, calls). 5 - i)") auto

declare regenerate.simps [simp del]

text \<open>The closure \<open>rotatePairCode\<close> of \<open>startReceiver\<close>.\<close>

definition rotatePairCode :: "ListenOptions \<Rightarrow> reason \<Rightarrow> int \<Rightarrow> receiver \<Rightarrow> string option \<times> receiver" where
  "rotatePairCode options why now r =
     (if \<not> truthy (currentCode (pairing r)) \<or> generatePairCode options = None then (None, r)
      else
        let g = the (generatePairCode options);
            oldCode = currentCode (pairing r);
            (nextCode, calls) = regenerate g oldCode 0 (g (genCalls r)) (genCalls r + 1);
            timed = (why = Ttl \<and> ttlMs options \<noteq> None);
            pairing' = (pairing r)
              \<lparr> currentCode := Some nextCode,
                previousCode := (if timed then oldCode else None),
                previousCodeValidUntilMs := (if timed then now + the (ttlMs options) else 0) \<rparr>
        in (Some nextCode,
            r \<lparr> pairing := pairing', genCalls := calls,
                notified := notified r @ [(nextCode, why)] \<rparr>))"

text \<open>The body of the \<open>setInterval\<close> callback.\<close>

definition ttlTick :: "ListenOptions \<Rightarrow> int \<Rightarrow> receiver \<Rightarrow> receiver" where
  "ttlTick options now r =
     (if activeTransfers (pairing r) > 0 then r
      else snd (rotatePairCode options Ttl now r))"

text \<open>\<open>rotatePairCodeOnce\<close>: the per-transfer rotation.\<close>

definition rotatePairCodeOnce :: "(nat \<Rightarrow> string) \<Rightarrow> receiver \<Rightarrow> string \<times> receiver" where
  "rotatePairCodeOnce g r =
     (let oldCode = currentCode (pairing r);
          (nextCode, calls) = regenerate g oldCode 0 (g (genCalls r)) (genCalls r + 1);
          pairing' = (pairing r)
            \<lparr> currentCode := Some nextCode,
              previousCode := None,
              previousCodeValidUntilMs := 0 \<rparr>
      in (nextCode, r \<lparr> pairing := pairing', genCalls := calls \<rparr>))"

text \<open>
  The start of \<open>startReceiver\<close>: the initial pairing state, the configuration checks and
  whether the rotation timer is installed (\<open>ttlMs && pairingState.currentCode\<close>).
\<close>

definition startReceiver :: "ListenOptions \<Rightarrow> string + (receiver \<times> bool)" where
  "startReceiver options =
     (let ttlSet = (case pairCodeTtlSeconds options of None \<Rightarrow> False | Some s \<Rightarrow> s \<noteq> 0);
          needsGenerator = (rotatePairCodePerTransfer options \<or> ttlSet)
      in if needsGenerator \<and> generatePairCode options = None
         then Inl ''generatePairCode is required when pair code rotation is enabled''
         else if ttlSet \<and> the (pairCodeTtlSeconds options) \<le> 0
         then Inl ''pairCodeTtlSeconds must be positive''
         else
           let r0 = \<lparr> pairing = \<lparr> currentCode = pairCode options, previousCode = None,
                                  previousCodeValidUntilMs = 0, activeTransfers = 0 \<rparr>,
                      genCalls = 0, notified = [] \<rparr>;
               r1 = (if needsGenerator \<and> \<not> truthy (pairCode options) \<and> generatePairCode options \<noteq> None
                     then r0 \<lparr> pairing := (pairing r0) \<lparr> currentCode := Some (the (generatePairCode options) 0) \<rparr>,
                               genCalls := 1 \<rparr>
                     else r0)
           in Inr (r1, ttlMs options \<noteq> None \<and> truthy (currentCode (pairing r1))))"

section \<open>Strings and bytes\<close>

text \<open>
  Buffers are lists of bytes, and a string is the list of the bytes of its UTF-8
  encoding. The punctuation that the code looks for (slash, backslash, dot, colon,
  newline) is ASCII, one byte each, and the other bytes of a valid encoding never equal
  an ASCII byte, so searching, splitting and joining on these characters act on the
  bytes as they act on the characters.

  \<open>String.prototype.trim\<close> removes the WhiteSpace and LineTerminator code points of
  ECMAScript from both ends: U+0009 to U+000D, U+0020, U+00A0, U+1680, U+2000 to U+200A,
  U+2028, U+2029, U+202F, U+205F, U+3000 and U+FEFF, here in their UTF-8 encodings. Each
  encoding starts with a lead byte, so a match at either end of the bytes is a match of
  the character.
\<close>

type_synonym bytes = "char list"

fun startsWith :: "string \<Rightarrow> string \<Rightarrow> bool" where
  "startsWith s [] = True"
| "startsWith [] (p # ps) = False"
| "startsWith (c # cs) (p # ps) = (c = p \<and> startsWith cs ps)"

fun includes_s :: "string \<Rightarrow> string \<Rightarrow> bool" where
  "includes_s [] p = (p = [])"
| "includes_s (c # cs) p = (startsWith (c # cs) p \<or> includes_s cs p)"

definition whiteSpaceCodes :: "string list" where
  "whiteSpaceCodes =
     [[CHR 0x09], [CHR 0x0A], [CHR 0x0B], [CHR 0x0C], [CHR 0x0D], [CHR 0x20],
      [CHR 0xC2, CHR 0xA0],
      [CHR 0xE1, CHR 0x9A, CHR 0x80],
      [CHR 0xE2, CHR 0x80, CHR 0x80], [CHR 0xE2, CHR 0x80, CHR 0x81], [CHR 0xE2, CHR 0x80, CHR 0x82],
      [CHR 0xE2, CHR 0x80, CHR 0x83], [CHR 0xE2, CHR 0x80, CHR 0x84], [CHR 0xE2, CHR 0x80, CHR 0x85],
      [CHR 0xE2, CHR 0x80, CHR 0x86], [CHR 0xE2, CHR 0x80, CHR 0x87], [CHR 0xE2, CHR 0x80, CHR 0x88],
      [CHR 0xE2, CHR 0x80, CHR 0x89], [CHR 0xE2, CHR 0x80, CHR 0x8A],
      [CHR 0xE2, CHR 0x80, CHR 0xA8], [CHR 0xE2, CHR 0x80, CHR 0xA9], [CHR 0xE2, CHR 0x80, CHR 0xAF],
      [CHR 0xE2, CHR 0x81, CHR 0x9F],
      [CHR 0xE3, CHR 0x80, CHR 0x80],
      [CHR 0xEF, CHR 0xBB, CHR 0xBF]]"

text \<open>
  \<open>dropLeading codes s\<close> removes from the start of \<open>s\<close> every occurrence of one of the
  \<open>codes\<close>, until none is left there.
\<close>

function dropLeading :: "string list \<Rightarrow> string \<Rightarrow> string" where
  "dropLeading codes s =
     (case find (\<lambda>w. w \<noteq> [] \<and> startsWith s w) codes of
        None \<Rightarrow> s
      | Some w \<Rightarrow> dropLeading codes (drop (length w) s))"
  by pat_completeness auto
termination
proof (relation "measure (\<lambda>(codes, s). length s)")
  show "wf (measure (\<lambda>(codes, s). length s))" by simp
next
  fix codes :: "string list" and s w :: string
  assume "find (\<lambda>w. w \<noteq> [] \<and> startsWith s w) codes = Some w"
  then have "w \<noteq> []" and "startsWith s w"
    by (auto simp: find_Some_iff)
  then have "s \<noteq> []" by (cases s; cases w) simp_all
  with \<open>w \<noteq> []\<close> show "((codes, drop (length w) s), codes, s) \<in> measure (\<lambda>(codes, s). length s)"
    by simp
qed

declare dropLeading.simps [simp del]

definition trimStart :: "string \<Rightarrow> string" where
  "trimStart s = dropLeading whiteSpaceCodes s"

definition trimEnd :: "string \<Rightarrow> string" where
  "trimEnd s = rev (dropLeading (map rev whiteSpaceCodes) (rev s))"

definition trim :: "string \<Rightarrow> string" where
  "trim s = trimEnd (trimStart s)"

section \<open>Files and the hasher\<close>

text \<open>
  The file system maps a path to what \<open>stat\<close> finds there: nothing (\<open>ENOENT\<close>), a
  regular file with its content, a directory, or a failure of \<open>stat\<close> other than
  \<open>ENOENT\<close> with its message. SHA-256 is a parameter \<open>H\<close> from bytes to the hex digest;
  a \<open>Hash\<close> object is the bytes it has been fed, and \<open>digest("hex")\<close> applies \<open>H\<close>.
\<close>

datatype node = File bytes | Directory | StatError string

type_synonym filesystem = "string \<rightharpoonup> node"

text \<open>\<open>updateHashFromFilePrefix\<close> (utils.ts), on the content of the file it reads.\<close>

definition updateHashFromFilePrefix :: "bytes \<Rightarrow> bytes \<Rightarrow> int \<Rightarrow> bytes" where
  "updateHashFromFilePrefix hasher content byteLength =
     (if byteLength \<le> 0 then hasher else hasher @ take (nat byteLength) content)"

text \<open>
  \<open>decideResumeOffset\<close> (transfer.ts): the resume offset and the hasher after seeding, or
  the error thrown.
\<close>

definition decideResumeOffset ::
  "(bytes \<Rightarrow> string) \<Rightarrow> filesystem \<Rightarrow> string \<Rightarrow> int \<Rightarrow> string \<Rightarrow> bytes \<Rightarrow> string + (int \<times> bytes)" where
  "decideResumeOffset H fs targetPath expectedSize expectedSha256 hasher =
     (case fs targetPath of
        None \<Rightarrow> Inr (0, hasher)
      | Some (StatError msg) \<Rightarrow> Inl msg
      | Some Directory \<Rightarrow> Inl ''target path is not a regular file''
      | Some (File content) \<Rightarrow>
          let size = int (length content) in
          if size \<le> 0 then Inr (0, hasher)
          else if size > expectedSize then Inr (0, hasher)
          else if size = expectedSize then
            (if H content \<noteq> expectedSha256 then Inr (0, hasher)
             else Inr (size, updateHashFromFilePrefix hasher content size))
          else Inr (size, updateHashFromFilePrefix hasher content size))"

section \<open>Framing of control records (SocketReader)\<close>

text \<open>
  A \<open>SocketReader\<close> holds the bytes received and not yet consumed, whether the peer has
  ended or closed, and the socket error if one occurred. Its listeners update it on each
  socket event. A read that finds neither a result nor an error waits for the next event;
  with no event left it waits for ever (\<open>Waiting\<close>).
\<close>

definition HEADER_MAX_BYTES :: nat where
  "HEADER_MAX_BYTES = 64 * 1024"

definition newline :: char where
  "newline = CHR 0x0A"

record SocketReader =
  buffer :: bytes
  ended :: bool
  error :: "string option"

datatype socket_event = Data bytes | End | Close | Error string

fun onEvent :: "socket_event \<Rightarrow> SocketReader \<Rightarrow> SocketReader" where
  "onEvent (Data chunk) rd = rd \<lparr> buffer := buffer rd @ chunk \<rparr>"
| "onEvent End rd = rd \<lparr> ended := True \<rparr>"
| "onEvent Close rd = rd \<lparr> ended := True \<rparr>"
| "onEvent (Error err) rd = rd \<lparr> error := Some err \<rparr>"

datatype 'a outcome = Returned 'a | Threw string | Waiting

text \<open>
  \<open>readLineMessage\<close>. \<open>decode\<close> is \<open>decodeJsonLine\<close> (\<open>JSON.parse\<close>): the value, or the
  message of the error it throws. The result carries the reader and the events left.
\<close>

fun readLineMessage ::
  "(string \<Rightarrow> string + 'a) \<Rightarrow> string \<Rightarrow> SocketReader \<Rightarrow> socket_event list
     \<Rightarrow> ('a \<times> SocketReader \<times> socket_event list) outcome" where
  "readLineMessage decode label rd events =
     (case error rd of
        Some err \<Rightarrow> Threw err
      | None \<Rightarrow>
          if newline \<in> set (buffer rd) then
            (let line = trim (takeWhile (\<lambda>c. c \<noteq> newline) (buffer rd));
                 rest = tl (dropWhile (\<lambda>c. c \<noteq> newline) (buffer rd))
             in case decode line of
                  Inl msg \<Rightarrow> Threw (''invalid '' @ label @ '': '' @ msg)
                | Inr v \<Rightarrow> Returned (v, rd \<lparr> buffer := rest \<rparr>, events))
          else if length (buffer rd) > HEADER_MAX_BYTES then Threw (label @ '' too large'')
          else if ended rd then Threw (''connection closed before '' @ label)
          else (case events of
                  [] \<Rightarrow> Waiting
                | e # es \<Rightarrow> readLineMessage decode label (onEvent e rd) es))"

declare readLineMessage.simps [simp del]

text \<open>\<open>readChunk\<close>: the whole buffer if it is not empty, \<open>null\<close> (None) at the end.\<close>

fun readChunk ::
  "SocketReader \<Rightarrow> socket_event list \<Rightarrow> (bytes option \<times> SocketReader \<times> socket_event list) outcome" where
  "readChunk rd events =
     (case error rd of
        Some err \<Rightarrow> Threw err
      | None \<Rightarrow>
          if length (buffer rd) > 0 then Returned (Some (buffer rd), rd \<lparr> buffer := [] \<rparr>, events)
          else if ended rd then Returned (None, rd, events)
          else (case events of
                  [] \<Rightarrow> Waiting
                | e # es \<Rightarrow> readChunk (onEvent e rd) es))"

declare readChunk.simps [simp del]

section \<open>Paths (utils.ts)\<close>

text \<open>
  The functions of Node's \<open>path\<close> module are library code. They are modelled for a POSIX
  host (\<open>sep\<close> is \<open>/\<close>) on the segments of a path: \<open>splitSlash\<close> is \<open>split("/")\<close>,
  \<open>joinSlash\<close> is \<open>join("/")\<close>, and \<open>normalizeSegments\<close> is the library's
  \<open>normalizeString\<close>, which drops empty and \<open>.\<close> segments and lets a \<open>..\<close> segment remove
  the segment before it; above the start of a relative path (\<open>allowAboveRoot\<close>) the
  \<open>..\<close> is kept, above the root of an absolute path it is dropped. The stack of kept
  segments is held in reverse.
\<close>

fun splitSlash :: "string \<Rightarrow> string list" where
  "splitSlash [] = [[]]"
| "splitSlash (c # cs) =
     (if c = CHR ''/'' then [] # splitSlash cs
      else (case splitSlash cs of [] \<Rightarrow> [[c]] | s # ss \<Rightarrow> (c # s) # ss))"

fun joinSlash :: "string list \<Rightarrow> string" where
  "joinSlash [] = []"
| "joinSlash [s] = s"
| "joinSlash (s # t # ss) = s @ ''/'' @ joinSlash (t # ss)"

fun normalizeSegments :: "bool \<Rightarrow> string list \<Rightarrow> string list \<Rightarrow> string list" where
  "normalizeSegments allowAboveRoot kept [] = rev kept"
| "normalizeSegments allowAboveRoot kept (seg # segs) =
     (if seg = [] \<or> seg = ''.'' then normalizeSegments allowAboveRoot kept segs
      else if seg = ''..'' then
        (case kept of
           [] \<Rightarrow> normalizeSegments allowAboveRoot (if allowAboveRoot then [''..''] else []) segs
         | lastKept # below \<Rightarrow>
             if lastKept \<noteq> ''..'' then normalizeSegments allowAboveRoot below segs
             else normalizeSegments allowAboveRoot (if allowAboveRoot then ''..'' # kept else kept) segs)
      else normalizeSegments allowAboveRoot (seg # kept) segs)"

text \<open>\<open>posix.normalize\<close>\<close>

definition posix_normalize :: "string \<Rightarrow> string" where
  "posix_normalize path =
     (if path = [] then ''.''
      else
        let isAbsolute = (hd path = CHR ''/'');
            trailingSeparator = (last path = CHR ''/'');
            p = joinSlash (normalizeSegments (\<not> isAbsolute) [] (splitSlash path))
        in if p = [] then (if isAbsolute then ''/'' else if trailingSeparator then ''./'' else ''.'')
           else (if isAbsolute then ''/'' else []) @ p @ (if trailingSeparator then ''/'' else []))"

text \<open>
  \<open>path.resolve\<close>, with the working directory \<open>cwd\<close> (an absolute path) as a parameter:
  the arguments are taken from the right until one is absolute.
\<close>

fun resolveLoop :: "string list \<Rightarrow> string \<Rightarrow> string \<times> bool" where
  "resolveLoop [] resolvedPath = (resolvedPath, False)"
| "resolveLoop (path # paths) resolvedPath =
     (if path = [] then resolveLoop paths resolvedPath
      else if hd path = CHR ''/'' then (path @ ''/'' @ resolvedPath, True)
      else resolveLoop paths (path @ ''/'' @ resolvedPath))"

definition posix_resolve :: "string \<Rightarrow> string list \<Rightarrow> string" where
  "posix_resolve cwd args =
     (let (resolvedPath, resolvedAbsolute) = resolveLoop (rev args @ [cwd]) [];
          normalized = joinSlash (normalizeSegments (\<not> resolvedAbsolute) [] (splitSlash resolvedPath))
      in if resolvedAbsolute then ''/'' @ normalized
         else if normalized \<noteq> [] then normalized else ''.'')"

text \<open>
  \<open>path.relative\<close>: both paths are resolved; the result climbs with one \<open>..\<close> for each
  segment of \<open>from\<close> below the common prefix and then descends along \<open>to\<close>.
\<close>

fun commonPrefixLength :: "string list \<Rightarrow> string list \<Rightarrow> nat" where
  "commonPrefixLength (a # as) (b # bs) = (if a = b then Suc (commonPrefixLength as bs) else 0)"
| "commonPrefixLength _ _ = 0"

definition pathSegments :: "string \<Rightarrow> string list" where
  "pathSegments p = filter (\<lambda>s. s \<noteq> []) (splitSlash p)"

definition posix_relative :: "string \<Rightarrow> string \<Rightarrow> string \<Rightarrow> string" where
  "posix_relative cwd from to =
     (let fromR = posix_resolve cwd [from];
          toR = posix_resolve cwd [to]
      in if fromR = toR then []
         else
           let fromSegs = pathSegments fromR;
               toSegs = pathSegments toR;
               n = commonPrefixLength fromSegs toSegs
           in joinSlash (replicate (length fromSegs - n) ''..'' @ drop n toSegs))"

text \<open>
  \<open>dirname\<close>, \<open>basename\<close> and \<open>extname\<close>, on the resolved absolute paths and the file
  names that \<open>duplicatePathWithIndex\<close> gives them. \<open>extname\<close> is the part of the name from
  its last dot, and empty when there is no dot, when the only dot is the first character,
  or when the name is \<open>..\<close>.
\<close>

definition posix_dirname :: "string \<Rightarrow> string" where
  "posix_dirname p = ''/'' @ joinSlash (butlast (pathSegments p))"

definition posix_basename :: "string \<Rightarrow> string" where
  "posix_basename p = (case pathSegments p of [] \<Rightarrow> [] | segs \<Rightarrow> last segs)"

definition posix_extname :: "string \<Rightarrow> string" where
  "posix_extname name =
     (let ext = CHR ''.'' # rev (takeWhile (\<lambda>c. c \<noteq> CHR ''.'') (rev name))
      in if CHR ''.'' \<notin> set name \<or> length ext = length name \<or> name = ''..'' then [] else ext)"

definition replaceBackslashes :: "string \<Rightarrow> string" where
  "replaceBackslashes s = map (\<lambda>c. if c = CHR 0x5C then CHR ''/'' else c) s"

text \<open>\<open>normalizeTransferPath\<close>: the normalized path, or the error thrown.\<close>

definition normalizedForm :: "string \<Rightarrow> string" where
  "normalizedForm input =
     dropWhile (\<lambda>c. c = CHR ''/'') (posix_normalize (trim (replaceBackslashes input)))"

definition normalizeTransferPath :: "string \<Rightarrow> string + string" where
  "normalizeTransferPath input =
     (let normalized = normalizedForm input
      in if normalized = [] \<or> normalized = ''.'' \<or> normalized = ''..''
            \<or> startsWith normalized ''../'' \<or> includes_s normalized ''/../''
         then Inl ''invalid relative path''
         else Inr normalized)"

text \<open>\<open>resolveOutputPath\<close>: the absolute target, or the error thrown.\<close>

definition resolveOutputPath :: "string \<Rightarrow> string \<Rightarrow> string \<Rightarrow> string + string" where
  "resolveOutputPath cwd outDir relativePath =
     (case normalizeTransferPath relativePath of
        Inl err \<Rightarrow> Inl err
      | Inr normalized \<Rightarrow>
          let localRelative = joinSlash (splitSlash normalized);
              absoluteRoot = posix_resolve cwd [outDir];
              absoluteTarget = posix_resolve cwd [absoluteRoot, localRelative];
              rel = posix_relative cwd absoluteRoot absoluteTarget
          in if rel = [] \<or> rel = ''.''
                \<or> (\<not> startsWith rel ''..'' \<and> \<not> startsWith (posix_normalize rel) ''../'')
             then Inr absoluteTarget
             else Inl ''path escapes output directory'')"

text \<open>Template literals render numbers in decimal.\<close>

fun showNat :: "nat \<Rightarrow> string" where
  "showNat n = (if n < 10 then [''0123456789'' ! n] else showNat (n div 10) @ [''0123456789'' ! (n mod 10)])"

declare showNat.simps [simp del]

definition showInt :: "int \<Rightarrow> string" where
  "showInt i = (if i < 0 then ''-'' @ showNat (nat (- i)) else showNat (nat i))"

section \<open>Choosing and promoting the target (transfer.ts)\<close>

definition TEMP_SUFFIX :: string where
  "TEMP_SUFFIX = ''.local-sent.part''"

definition MAX_DUPLICATE_SUFFIX_ATTEMPTS :: nat where
  "MAX_DUPLICATE_SUFFIX_ATTEMPTS = 10000"

text \<open>\<open>pathExists\<close>: \<open>ENOENT\<close> is false, any other failure of \<open>stat\<close> is thrown.\<close>

definition pathExists :: "filesystem \<Rightarrow> string \<Rightarrow> string + bool" where
  "pathExists fs filePath =
     (case fs filePath of
        None \<Rightarrow> Inr False
      | Some (StatError msg) \<Rightarrow> Inl msg
      | Some _ \<Rightarrow> Inr True)"

definition duplicatePathWithIndex :: "string \<Rightarrow> string \<Rightarrow> nat \<Rightarrow> string" where
  "duplicatePathWithIndex cwd basePath index =
     (if index \<le> 0 then basePath
      else
        let dir = posix_dirname basePath;
            fileName = posix_basename basePath;
            extension = posix_extname fileName;
            stem = (if extension \<noteq> [] then take (length fileName - length extension) fileName
                    else fileName)
        in posix_resolve cwd [dir, stem @ ''('' @ showNat index @ '')'' @ extension])"

text \<open>
  \<open>buildReceiveTempPath\<close>. The tag \<open>expectedSha256.slice(0, 16).toLowerCase()\<close> is
  computed by the language's string functions (sixteen UTF-16 units, Unicode case
  mapping) on text that the peer supplies; it is a parameter \<open>shortTag\<close>.
\<close>

definition buildReceiveTempPath :: "(string \<Rightarrow> string) \<Rightarrow> string \<Rightarrow> string \<Rightarrow> string" where
  "buildReceiveTempPath shortTag finalPath expectedSha256 =
     finalPath @ ''.'' @ shortTag expectedSha256 @ TEMP_SUFFIX"

text \<open>
  The loop of \<open>selectReceivePaths\<close> from a given index: the final path and the temp path
  chosen, or the error thrown.
\<close>

function selectFrom ::
  "(string \<Rightarrow> string) \<Rightarrow> string \<Rightarrow> filesystem \<Rightarrow> string \<Rightarrow> string \<Rightarrow> nat
     \<Rightarrow> string + (string \<times> string)" where
  "selectFrom shortTag cwd fs basePath expectedSha256 index =
     (if index < MAX_DUPLICATE_SUFFIX_ATTEMPTS then
        (let candidateFinalPath = duplicatePathWithIndex cwd basePath index;
             candidateTempPath = buildReceiveTempPath shortTag candidateFinalPath expectedSha256
         in case pathExists fs candidateTempPath of
              Inl err \<Rightarrow> Inl err
            | Inr True \<Rightarrow> Inr (candidateFinalPath, candidateTempPath)
            | Inr False \<Rightarrow>
                (case pathExists fs candidateFinalPath of
                   Inl err \<Rightarrow> Inl err
                 | Inr False \<Rightarrow> Inr (candidateFinalPath, candidateTempPath)
                 | Inr True \<Rightarrow> selectFrom shortTag cwd fs basePath expectedSha256 (index + 1)))
      else Inl ''failed to allocate receive target path'')"
  by pat_completeness auto
termination
  by (relation "measure (\<lambda>(shortTag, cwd, fs, basePath, expectedSha256, index).
                           MAX_DUPLICATE_SUFFIX_ATTEMPTS - index)") auto

declare selectFrom.simps [simp del]

definition selectReceivePaths ::
  "(string \<Rightarrow> string) \<Rightarrow> string \<Rightarrow> filesystem \<Rightarrow> string \<Rightarrow> string \<Rightarrow> string
     \<Rightarrow> string + (string \<times> string)" where
  "selectReceivePaths shortTag cwd fs outDir relPath expectedSha256 =
     (case resolveOutputPath cwd outDir relPath of
        Inl err \<Rightarrow> Inl err
      | Inr basePath \<Rightarrow> selectFrom shortTag cwd fs basePath expectedSha256 0)"

text \<open>
  \<open>fs.rename\<close> fails with \<open>ENOENT\<close> when the source is missing; whether it fails
  otherwise (another device, an occupied target) is up to the operating system, given
  here as \<open>renameError\<close>. A rename that succeeds moves the node and replaces the target.
\<close>

datatype errno = ENOENT | EXDEV | EEXIST | ENOTEMPTY | EOTHER string

definition renameFile ::
  "(string \<Rightarrow> string \<Rightarrow> errno option) \<Rightarrow> filesystem \<Rightarrow> string \<Rightarrow> string \<Rightarrow> errno + filesystem" where
  "renameFile renameError fs src dst =
     (case fs src of
        None \<Rightarrow> Inl ENOENT
      | Some n \<Rightarrow>
          (case renameError src dst of
             Some e \<Rightarrow> Inl e
           | None \<Rightarrow> Inr ((fs(src := None))(dst \<mapsto> n))))"

text \<open>\<open>rm(path, {force: true})\<close>; a directory is not removed (the failure is ignored).\<close>

definition rmForce :: "filesystem \<Rightarrow> string \<Rightarrow> filesystem" where
  "rmForce fs p = (case fs p of Some (File content) \<Rightarrow> fs(p := None) | _ \<Rightarrow> fs)"

text \<open>The loop of \<open>promoteReceivedFile\<close> from a given index.\<close>

function promoteFrom ::
  "(string \<Rightarrow> string \<Rightarrow> errno option) \<Rightarrow> string \<Rightarrow> filesystem \<Rightarrow> string \<Rightarrow> string \<Rightarrow> nat
     \<Rightarrow> string + (string \<times> filesystem)" where
  "promoteFrom renameError cwd fs tmpPath preferredFinalPath index =
     (if index < MAX_DUPLICATE_SUFFIX_ATTEMPTS then
        (let candidateFinalPath = duplicatePathWithIndex cwd preferredFinalPath index
         in case renameFile renameError fs tmpPath candidateFinalPath of
              Inr fs' \<Rightarrow> Inr (candidateFinalPath, fs')
            | Inl ENOENT \<Rightarrow> Inl ''temporary receive file is missing''
            | Inl EXDEV \<Rightarrow>
                Inr (candidateFinalPath,
                     rmForce (case fs tmpPath of None \<Rightarrow> fs | Some n \<Rightarrow> fs(candidateFinalPath \<mapsto> n)) tmpPath)
            | Inl EEXIST \<Rightarrow> promoteFrom renameError cwd fs tmpPath preferredFinalPath (index + 1)
            | Inl ENOTEMPTY \<Rightarrow> promoteFrom renameError cwd fs tmpPath preferredFinalPath (index + 1)
            | Inl (EOTHER msg) \<Rightarrow> Inl msg)
      else Inl ''failed to choose final receive file path'')"
  by pat_completeness auto
termination
  by (relation "measure (\<lambda>(renameError, cwd, fs, tmpPath, preferredFinalPath, index).
                           MAX_DUPLICATE_SUFFIX_ATTEMPTS - index)") auto

declare promoteFrom.simps [simp del]

definition promoteReceivedFile ::
  "(string \<Rightarrow> string \<Rightarrow> errno option) \<Rightarrow> string \<Rightarrow> filesystem \<Rightarrow> string \<Rightarrow> string
     \<Rightarrow> string + (string \<times> filesystem)" where
  "promoteReceivedFile renameError cwd fs tmpPath preferredFinalPath =
     promoteFrom renameError cwd fs tmpPath preferredFinalPath 0"

section \<open>The receiving session (handleIncomingSocket)\<close>

text \<open>The wire records of protocol.ts; \<open>type\<close> is the constructor of \<open>message\<close>.\<close>

record TransferHeader =
  h_type :: string
  h_version :: int
  relativePath :: string
  fileSize :: int
  sha256 :: string
  h_pairCode :: "string option"

record ReadyMessage =
  ready_ok :: bool
  ready_offset :: int
  ready_message :: "string option"
  ready_savedPath :: "string option"

record AckMessage =
  ack_ok :: bool
  ack_message :: "string option"
  ack_sha256 :: "string option"
  ack_receivedBytes :: "int option"
  ack_savedPath :: "string option"
  ack_resumedFrom :: "int option"
  ack_nextPairCode :: "string option"

datatype message = Ready ReadyMessage | Ack AckMessage

text \<open>
  The write side of the socket. Whether it is writable when the session replies is up
  to the peer and the network; the session itself only ends or destroys it. A write on a
  socket that is not writable sends nothing (the error it raises is swallowed by the
  \<open>error\<close> listener that the session installs first).
\<close>

record socket =
  writable :: bool
  destroyed :: bool
  sent :: "message list"

definition socketWrite :: "message \<Rightarrow> socket \<Rightarrow> socket" where
  "socketWrite m so = (if writable so then so \<lparr> sent := sent so @ [m] \<rparr> else so)"

definition socketEnd :: "message \<Rightarrow> socket \<Rightarrow> socket" where
  "socketEnd m so = (if writable so then so \<lparr> sent := sent so @ [m], writable := False \<rparr> else so)"

definition socketDestroy :: "socket \<Rightarrow> socket" where
  "socketDestroy so = so \<lparr> writable := False, destroyed := True \<rparr>"

text \<open>
  What the session is given from outside: SHA-256, the JSON decoder of the header, the
  tag of a digest in the name of a temp file, the working directory, the operating
  system's verdict on a rename, the clock at admission and the peer's address.
\<close>

record env =
  e_sha256 :: "bytes \<Rightarrow> string"
  e_decode :: "string \<Rightarrow> string + TransferHeader"
  e_shortTag :: "string \<Rightarrow> string"
  e_cwd :: string
  e_renameError :: "string \<Rightarrow> string \<Rightarrow> errno option"
  e_now :: int
  e_remoteAddress :: "string option"

datatype ReceiverPhase = BeforeReady | Receiving | Done

datatype stream_state = StreamOpen | StreamEnded | StreamDestroyed

text \<open>
  The local variables of \<open>handleIncomingSocket\<close>, with the receiver's shared state, the
  file system, the socket, the reader and the socket events not yet delivered. The file
  stream writes at the end of the temp file; failures of the disk are not modelled.
\<close>

record session =
  rcv :: receiver
  files :: filesystem
  sock :: socket
  reader :: SocketReader
  inbound :: "socket_event list"
  header :: "TransferHeader option"
  targetPath :: string
  tempPath :: string
  fileStream :: "stream_state option"
  phase :: ReceiverPhase
  failed :: bool
  resumedFrom :: int
  received :: int
  requiredPairCodeForThisTransfer :: "string option"
  hasher :: bytes

text \<open>
  How a block of the handler ends: it falls through to the next block, returns from the
  handler, throws into the handler's \<open>catch\<close>, or awaits an event that never comes.
\<close>

datatype control = Continue | Return | Throw string | Wait

definition andThen :: "control \<times> session \<Rightarrow> (session \<Rightarrow> control \<times> session) \<Rightarrow> control \<times> session" where
  "andThen step next = (case step of (Continue, s) \<Rightarrow> next s | _ \<Rightarrow> step)"

definition normalizeRemoteAddress :: "string option \<Rightarrow> string" where
  "normalizeRemoteAddress raw =
     (let v = trim (case raw of None \<Rightarrow> [] | Some a \<Rightarrow> a)
      in if v = [] then ''unknown''
         else if startsWith v ''::ffff:'' then drop (length ''::ffff:'') v
         else v)"

text \<open>The closure \<open>fail\<close>.\<close>

definition fail :: "string \<Rightarrow> bool \<Rightarrow> session \<Rightarrow> session" where
  "fail msg cleanup s =
     (if failed s then s
      else
        let s1 = s \<lparr> failed := True \<rparr>;
            s2 = (if fileStream s1 \<noteq> None then s1 \<lparr> fileStream := Some StreamDestroyed \<rparr> else s1);
            s3 = (if cleanup \<and> tempPath s2 \<noteq> [] then s2 \<lparr> files := rmForce (files s2) (tempPath s2) \<rparr> else s2);
            messageBody =
              (if phase s3 = BeforeReady
               then Ready \<lparr> ready_ok = False, ready_offset = 0, ready_message = Some msg,
                            ready_savedPath = None \<rparr>
               else Ack \<lparr> ack_ok = False, ack_message = Some msg, ack_sha256 = None,
                          ack_receivedBytes = None, ack_savedPath = None, ack_resumedFrom = None,
                          ack_nextPairCode = None \<rparr>)
        in if writable (sock s3)
           then s3 \<lparr> sock := socketDestroy (socketEnd messageBody (sock s3)) \<rparr>
           else s3 \<lparr> sock := socketDestroy (sock s3) \<rparr>)"

text \<open>Lines 530 to 538: the checks of the header's fields.\<close>

definition checkHeader :: "TransferHeader \<Rightarrow> session \<Rightarrow> control \<times> session" where
  "checkHeader h s =
     (if h_type h \<noteq> ''header'' then (Return, fail ''protocol error: expected header'' False s)
      else if h_version h \<noteq> 1 \<or> fileSize h < 0 \<or> sha256 h = []
      then (Return, fail ''invalid header fields'' False s)
      else (Continue, s))"

text \<open>Lines 540 to 544: admission.\<close>

definition admit :: "env \<Rightarrow> TransferHeader \<Rightarrow> session \<Rightarrow> control \<times> session" where
  "admit e h s =
     (let s1 = s \<lparr> requiredPairCodeForThisTransfer := currentCode (pairing (rcv s)) \<rparr>
      in if \<not> isPairCodeAccepted (pairing (rcv s1)) (e_now e) (h_pairCode h)
         then (Return, fail ''pair code mismatch'' False s1)
         else (Continue, s1))"

text \<open>
  Lines 546 to 553: the target paths. \<open>mkdir\<close> of the target's directory is recorded for
  that directory alone and fails where a file is in the way.
\<close>

definition choosePaths :: "env \<Rightarrow> ListenOptions \<Rightarrow> TransferHeader \<Rightarrow> session \<Rightarrow> control \<times> session" where
  "choosePaths e options h s =
     (case selectReceivePaths (e_shortTag e) (e_cwd e) (files s) (outputDir options) (relativePath h)
             (sha256 h) of
        Inl err \<Rightarrow> (Throw err, s)
      | Inr (finalPath, tmpPath) \<Rightarrow>
          let s1 = s \<lparr> targetPath := finalPath, tempPath := tmpPath \<rparr>;
              dir = posix_dirname finalPath
          in (case files s1 dir of
                Some (File content) \<Rightarrow> (Throw ''EEXIST: file already exists, mkdir'', s1)
              | Some (StatError err) \<Rightarrow> (Throw err, s1)
              | _ \<Rightarrow> (Continue, s1 \<lparr> files := (files s1)(dir \<mapsto> Directory) \<rparr>)))"

text \<open>Lines 555 to 570: the confirmation hook.\<close>

definition askConfirmation :: "env \<Rightarrow> ListenOptions \<Rightarrow> TransferHeader \<Rightarrow> session \<Rightarrow> control \<times> session" where
  "askConfirmation e options h s =
     (case confirmTransfer options of
        None \<Rightarrow> (Continue, s)
      | Some hook \<Rightarrow>
          (case hook \<lparr> from_addr = normalizeRemoteAddress (e_remoteAddress e),
                       req_relativePath = relativePath h, req_fileSize = fileSize h \<rparr> of
             DecisionBool accepted \<Rightarrow>
               if \<not> accepted then (Return, fail ''receiver rejected transfer'' False s)
               else (Continue, s)
           | DecisionObject accepted reply \<Rightarrow>
               if \<not> accepted
               then (Return,
                     fail (case reply of
                             None \<Rightarrow> ''receiver rejected transfer''
                           | Some m \<Rightarrow> if trim m = [] then ''receiver rejected transfer'' else trim m)
                          False s)
               else (Continue, s)))"

text \<open>
  Lines 572 to 596: the resume offset, the file stream (\<open>"w"\<close> creates or truncates the
  temp file, \<open>"r+"\<close> keeps it) and the \<open>ready\<close> record.
\<close>

definition beginReceiving :: "env \<Rightarrow> TransferHeader \<Rightarrow> session \<Rightarrow> control \<times> session" where
  "beginReceiving e h s =
     (case decideResumeOffset (e_sha256 e) (files s) (tempPath s) (fileSize h) (sha256 h) (hasher s) of
        Inl err \<Rightarrow> (Throw err, s)
      | Inr (offset, seeded) \<Rightarrow>
          let s1 = s \<lparr> resumedFrom := offset, hasher := seeded, received := offset \<rparr>;
              s2 = (if offset < fileSize h
                    then s1 \<lparr> fileStream := Some StreamOpen,
                              files := (if offset > 0 then files s1
                                        else (files s1)(tempPath s1 \<mapsto> File [])) \<rparr>
                    else s1);
              ready = Ready \<lparr> ready_ok = True, ready_offset = offset, ready_message = None,
                              ready_savedPath = Some (targetPath s2) \<rparr>
          in (Continue, s2 \<lparr> sock := socketWrite ready (sock s2), phase := Receiving \<rparr>))"

definition appendFile :: "filesystem \<Rightarrow> string \<Rightarrow> bytes \<Rightarrow> filesystem" where
  "appendFile fs p payload =
     (case fs p of Some (File content) \<Rightarrow> fs(p \<mapsto> File (content @ payload)) | _ \<Rightarrow> fs)"

text \<open>\<open>writePayload\<close>\<close>

definition writePayload :: "TransferHeader \<Rightarrow> bytes \<Rightarrow> session \<Rightarrow> control \<times> session" where
  "writePayload h payload s =
     (if length payload = 0 then (Continue, s)
      else
        let nextReceived = received s + int (length payload)
        in if nextReceived > fileSize h then (Throw ''payload exceeds declared file size'', s)
           else if fileStream s = None then (Throw ''unexpected payload for already complete file'', s)
           else (Continue, s \<lparr> hasher := hasher s @ payload, received := nextReceived,
                               files := appendFile (files s) (tempPath s) payload \<rparr>))"

text \<open>Lines 598 to 617: the payload loop.\<close>

definition readProgress :: "session \<Rightarrow> nat" where
  "readProgress s = 2 * length (inbound s) + (if buffer (reader s) = [] then 0 else 1)"

function receivePayload :: "TransferHeader \<Rightarrow> session \<Rightarrow> control \<times> session" where
  "receivePayload h s =
     (if received s < fileSize h then
        (case readChunk (reader s) (inbound s) of
           Waiting \<Rightarrow> (Wait, s)
         | Threw err \<Rightarrow> (Throw err, s)
         | Returned (None, rd, events) \<Rightarrow> (Continue, s \<lparr> reader := rd, inbound := events \<rparr>)
         | Returned (Some chunk, rd, events) \<Rightarrow>
             (case writePayload h chunk (s \<lparr> reader := rd, inbound := events \<rparr>) of
                (Continue, s') \<Rightarrow> receivePayload h s'
              | other \<Rightarrow> other))
      else (Continue, s))"
  by pat_completeness auto
termination
proof (relation "measure (\<lambda>(h, s). readProgress s)")
  show "wf (measure (\<lambda>(h, s). readProgress s))" by simp
next
  fix h s r chunk rd events c s' and res :: "bytes option \<times> SocketReader \<times> socket_event list"
    and rest :: "SocketReader \<times> socket_event list" and got :: "bytes option"
  assume "received s < fileSize h"
     and "readChunk (reader s) (inbound s) = Returned res"
     and "(got, rest) = res" and "(rd, events) = rest"
     and "got = Some chunk"
     and "(c, s') = writePayload h chunk (s\<lparr>reader := rd, inbound := events\<rparr>)"
     and "c = Continue"
  then have chunk: "readChunk (reader s) (inbound s) = Returned (Some chunk, rd, events)"
        and same: "reader s' = rd" "inbound s' = events"
    by (auto simp: writePayload_def Let_def split: if_splits)
  have progress: "readChunk rd0 evs = Returned (Some ch, rd1, evs1) \<Longrightarrow>
      2 * length evs1 + (if buffer rd1 = [] then 0 else 1)
        < 2 * length evs + (if buffer rd0 = [] then 0 else (1::nat))" for rd0 evs ch rd1 evs1
  proof (induction rd0 evs rule: readChunk.induct)
    case (1 rd0 evs)
    show ?case
    proof (cases "error rd0 = None \<and> buffer rd0 = [] \<and> \<not> ended rd0")
      case False
      with "1.prems" show ?thesis
        by (subst (asm) readChunk.simps) (auto split: option.splits if_splits)
    next
      case True
      show ?thesis
      proof (cases evs)
        case Nil
        with True "1.prems" show ?thesis by (subst (asm) readChunk.simps) simp
      next
        case (Cons ev es)
        with True "1.prems" have "readChunk (onEvent ev rd0) es = Returned (Some ch, rd1, evs1)"
          by (subst (asm) readChunk.simps) simp
        with "1.IH" [of ev es] True Cons
        have "2 * length evs1 + (if buffer rd1 = [] then 0 else 1)
                < 2 * length es + (if buffer (onEvent ev rd0) = [] then 0 else (1::nat))"
          by simp
        with Cons show ?thesis by (simp split: if_splits)
      qed
    qed
  qed
  show "((h, s'), h, s) \<in> measure (\<lambda>(h, s). readProgress s)"
    using progress [OF chunk] same by (simp add: readProgress_def)
qed

declare receivePayload.simps [simp del]

text \<open>Lines 624 to 627: the file stream, if there is one, is ended and flushed.\<close>

definition endFileStream :: "session \<Rightarrow> session" where
  "endFileStream s = (if fileStream s \<noteq> None then s \<lparr> fileStream := Some StreamEnded \<rparr> else s)"

text \<open>
  Lines 637 to 645: the \<open>nextPairCode\<close> of the \<open>ack\<close> and the receiver's state after the
  rotation, if there is one.
\<close>

definition chooseNextPairCode :: "ListenOptions \<Rightarrow> session \<Rightarrow> string option \<times> receiver" where
  "chooseNextPairCode options s =
     (if truthy (requiredPairCodeForThisTransfer s)
         \<and> rotatePairCodePerTransfer options \<and> generatePairCode options \<noteq> None
      then
        let (code, r') = rotatePairCodeOnce (the (generatePairCode options)) (rcv s)
        in (Some code, if code \<noteq> [] then r' \<lparr> notified := notified r' @ [(code, Once)] \<rparr> else r')
      else if truthy (requiredPairCodeForThisTransfer s)
      then (currentCode (pairing (rcv s)), rcv s)
      else (None, rcv s))"

text \<open>
  Lines 619 to 660: the size check, the end of the file stream, the comparison of the
  digest, the promotion of the temp file, the rotation of the pair code and the
  \<open>ack\<close> record.
\<close>

definition completeTransfer :: "env \<Rightarrow> ListenOptions \<Rightarrow> TransferHeader \<Rightarrow> session \<Rightarrow> control \<times> session" where
  "completeTransfer e options h s =
     (if received s \<noteq> fileSize h
      then (Return, fail (''size mismatch: expected '' @ showInt (fileSize h) @ '', got ''
                           @ showInt (received s)) False s)
      else
        let s1 = endFileStream s;
            digest = e_sha256 e (hasher s1)
        in if digest \<noteq> sha256 h then (Return, fail ''sha256 mismatch'' True s1)
           else
             (case promoteReceivedFile (e_renameError e) (e_cwd e) (files s1) (tempPath s1) (targetPath s1) of
                Inl err \<Rightarrow> (Throw err, s1)
              | Inr (savedPath, fs') \<Rightarrow>
                  let s2 = s1 \<lparr> files := fs', phase := Done \<rparr>;
                      (nextPairCode, rcv') = chooseNextPairCode options s2;
                      ack = Ack \<lparr> ack_ok = True, ack_message = None, ack_sha256 = Some digest,
                                  ack_receivedBytes = Some (received s2), ack_savedPath = Some savedPath,
                                  ack_resumedFrom = Some (resumedFrom s2), ack_nextPairCode = nextPairCode \<rparr>
                  in (Continue, s2 \<lparr> rcv := rcv', sock := socketEnd ack (sock s2) \<rparr>)))"

text \<open>The \<open>try\<close> block.\<close>

definition sessionBody :: "env \<Rightarrow> ListenOptions \<Rightarrow> session \<Rightarrow> control \<times> session" where
  "sessionBody e options s =
     (case readLineMessage (e_decode e) ''header'' (reader s) (inbound s) of
        Waiting \<Rightarrow> (Wait, s)
      | Threw err \<Rightarrow> (Throw err, s)
      | Returned (h, rd, events) \<Rightarrow>
          andThen (checkHeader h (s \<lparr> header := Some h, reader := rd, inbound := events \<rparr>)) (\<lambda>s.
          andThen (admit e h s) (\<lambda>s.
          andThen (choosePaths e options h s) (\<lambda>s.
          andThen (askConfirmation e options h s) (\<lambda>s.
          andThen (beginReceiving e h s) (\<lambda>s.
          andThen (receivePayload h s) (\<lambda>s.
          completeTransfer e options h s)))))))"

text \<open>
  Line 464, run on accept before anything is read, and line 665, in the \<open>finally\<close>
  block.
\<close>

definition beginTransfer :: "receiver \<Rightarrow> receiver" where
  "beginTransfer r = r \<lparr> pairing := (pairing r) \<lparr> activeTransfers := activeTransfers (pairing r) + 1 \<rparr> \<rparr>"

definition endTransfer :: "receiver \<Rightarrow> receiver" where
  "endTransfer r = r \<lparr> pairing := (pairing r) \<lparr> activeTransfers := max 0 (activeTransfers (pairing r) - 1) \<rparr> \<rparr>"

text \<open>The session on an accepted socket, when the \<open>try\<close> block is entered.\<close>

definition accepted :: "receiver \<Rightarrow> filesystem \<Rightarrow> bool \<Rightarrow> socket_event list \<Rightarrow> session" where
  "accepted r fs canWrite events =
     \<lparr> rcv = beginTransfer r,
       files = fs,
       sock = \<lparr> writable = canWrite, destroyed = False, sent = [] \<rparr>,
       reader = \<lparr> buffer = [], ended = False, error = None \<rparr>,
       inbound = events,
       header = None, targetPath = [], tempPath = [], fileStream = None,
       phase = BeforeReady, failed = False, resumedFrom = 0, received = 0,
       requiredPairCodeForThisTransfer = None, hasher = [] \<rparr>"

text \<open>The \<open>finally\<close> block.\<close>

definition release :: "session \<Rightarrow> session" where
  "release s = s \<lparr> rcv := endTransfer (rcv s) \<rparr>"

text \<open>
  \<open>handleIncomingSocket\<close>, given all the events that the socket will deliver: whether
  the handler has run to its end, and the state it has reached. A handler that is left
  awaiting an event has not run its \<open>finally\<close> block.
\<close>

definition handleIncomingSocket ::
  "env \<Rightarrow> ListenOptions \<Rightarrow> receiver \<Rightarrow> filesystem \<Rightarrow> bool \<Rightarrow> socket_event list \<Rightarrow> bool \<times> session" where
  "handleIncomingSocket e options r fs canWrite events =
     (case sessionBody e options (accepted r fs canWrite events) of
        (Wait, s) \<Rightarrow> (False, s)
      | (Throw err, s) \<Rightarrow> (True, release (fail err False s))
      | (_, s) \<Rightarrow> (True, release s))"

section \<open>The sending session (sendFile)\<close>







section \<open>States of a session\<close>

text \<open>
  Two kinds of states that a running handler goes through, used to describe its runs.
  Before \<open>ready\<close>: nothing sent, nothing hashed, no file stream, the receiver's shared
  state as it was on accept. After \<open>ready\<close>: the header has passed the checks and
  admission, \<open>ready\<close> is the only record sent (if the socket took it), and the temp
  path holds a regular file or nothing; when the announced size is positive it holds
  exactly the bytes that the hasher has been fed.
\<close>

definition before_ready :: "bool \<Rightarrow> receiver \<Rightarrow> session \<Rightarrow> bool" where
  "before_ready canWrite r1 s \<longleftrightarrow>
     rcv s = r1 \<and> phase s = BeforeReady \<and> \<not> failed s
     \<and> sock s = \<lparr> writable = canWrite, destroyed = False, sent = [] \<rparr>
     \<and> hasher s = [] \<and> fileStream s = None
     \<and> (requiredPairCodeForThisTransfer s = None \<or> requiredPairCodeForThisTransfer s = currentCode (pairing r1))"

definition receiving :: "env \<Rightarrow> bool \<Rightarrow> receiver \<Rightarrow> TransferHeader \<Rightarrow> session \<Rightarrow> bool" where
  "receiving e canWrite r1 h s \<longleftrightarrow>
     rcv s = r1 \<and> header s = Some h \<and> phase s = Receiving \<and> \<not> failed s
     \<and> sock s = \<lparr> writable = canWrite, destroyed = False,
                  sent = (if canWrite
                          then [Ready \<lparr> ready_ok = True, ready_offset = resumedFrom s, ready_message = None,
                                       ready_savedPath = Some (targetPath s) \<rparr>]
                          else []) \<rparr>
     \<and> tempPath s \<noteq> []
     \<and> (case files s (tempPath s) of None \<Rightarrow> True | Some (File content) \<Rightarrow> True | Some other \<Rightarrow> False)
     \<and> (if 0 < fileSize h then files s (tempPath s) = Some (File (hasher s)) else True)
     \<and> requiredPairCodeForThisTransfer s = currentCode (pairing r1)
     \<and> isPairCodeAccepted (pairing r1) (e_now e) (h_pairCode h)
     \<and> h_type h = ''header'' \<and> h_version h = 1 \<and> 0 \<le> fileSize h \<and> sha256 h \<noteq> []
     \<and> received s \<le> fileSize h"

section \<open>The receiver as a whole\<close>

text \<open>
  The handler touches the shared state at three points, each run without interruption:
  on accept, at the rotation that precedes a successful \<open>ack\<close>, and in its \<open>finally\<close>
  block. \<open>reachable options r n\<close>: the receiver started with \<open>options\<close> can be in the
  shared state \<open>r\<close> with \<open>n\<close> handlers running, after any interleaving of accepted
  connections, handlers that end, rotations by running handlers and timer ticks.
\<close>

inductive reachable :: "ListenOptions \<Rightarrow> receiver \<Rightarrow> nat \<Rightarrow> bool" for options where
  started: "startReceiver options = Inr (r, timer) \<Longrightarrow> reachable options r 0"
| accept: "reachable options r n \<Longrightarrow> reachable options (beginTransfer r) (Suc n)"
| finish: "reachable options r (Suc n) \<Longrightarrow> reachable options (endTransfer r) n"
| rotate: "reachable options r (Suc n) \<Longrightarrow> rcv s = r
             \<Longrightarrow> reachable options (snd (chooseNextPairCode options s)) (Suc n)"
| tick: "reachable options r n \<Longrightarrow> reachable options (ttlTick options now r) n"

text \<open>
  Two predicates for reasoning about normalized paths: every \<open>..\<close> segment of a list
  comes before every other segment, and a segment is not empty and has no slash.
\<close>

fun dotsFirst :: "string list \<Rightarrow> bool" where
  "dotsFirst [] = True"
| "dotsFirst (s # ss) = (if s = ''..'' then dotsFirst ss else ''..'' \<notin> set ss)"

definition plainSegment :: "string \<Rightarrow> bool" where
  "plainSegment s \<longleftrightarrow> s \<noteq> [] \<and> CHR ''/'' \<notin> set s"

section \<open>TLS trust (tlsTrust.ts)\<close>

text \<open>
  The known-hosts map is a JavaScript object: its own properties as a list of keys and
  values, in the order in which the language enumerates them (array indices first, in
  ascending numeric order, then the other keys in the order of their creation).
  \<open>jsDefine\<close> creates or overwrites an own property, as \<open>JSON.parse\<close> and
  \<open>Object.fromEntries\<close> do; \<open>jsSet\<close> is the assignment \<open>obj[key] = value\<close> of a
  string, which the setter of \<open>__proto__\<close> ignores. An endpoint key contains a colon,
  so \<open>obj[endpoint]\<close> finds own properties only (\<open>jsGet\<close>).
\<close>

type_synonym KnownHostsMap = "(string \<times> string) list"

definition isDigit :: "char \<Rightarrow> bool" where
  "isDigit c \<longleftrightarrow> c \<in> set ''0123456789''"

definition digitValue :: "char \<Rightarrow> nat" where
  "digitValue c = (case map_of (zip ''0123456789'' [0, 1, 2, 3, 4, 5, 6, 7, 8, 9]) c of
                     None \<Rightarrow> 0 | Some d \<Rightarrow> d)"

definition decimalValue :: "string \<Rightarrow> nat" where
  "decimalValue k = foldl (\<lambda>acc c. 10 * acc + digitValue c) 0 k"

definition isArrayIndex :: "string \<Rightarrow> bool" where
  "isArrayIndex k \<longleftrightarrow>
     k \<noteq> [] \<and> list_all isDigit k \<and> (k = ''0'' \<or> hd k \<noteq> CHR ''0'') \<and> decimalValue k < 2 ^ 32 - 1"

fun jsInsert :: "string \<Rightarrow> string \<Rightarrow> KnownHostsMap \<Rightarrow> KnownHostsMap" where
  "jsInsert k v [] = [(k, v)]"
| "jsInsert k v ((k', v') # rest) =
     (if isArrayIndex k \<and> (\<not> isArrayIndex k' \<or> decimalValue k < decimalValue k')
      then (k, v) # (k', v') # rest
      else (k', v') # jsInsert k v rest)"

definition jsDefine :: "KnownHostsMap \<Rightarrow> string \<Rightarrow> string \<Rightarrow> KnownHostsMap" where
  "jsDefine obj k v =
     (if k \<in> set (map fst obj) then map (\<lambda>(k', v'). if k' = k then (k', v) else (k', v')) obj
      else jsInsert k v obj)"

definition jsSet :: "KnownHostsMap \<Rightarrow> string \<Rightarrow> string \<Rightarrow> KnownHostsMap" where
  "jsSet obj k v = (if k = ''__proto__'' then obj else jsDefine obj k v)"

definition jsGet :: "KnownHostsMap \<Rightarrow> string \<Rightarrow> string option" where
  "jsGet obj k = map_of obj k"

definition fromEntries :: "(string \<times> string) list \<Rightarrow> KnownHostsMap" where
  "fromEntries entries = foldl (\<lambda>obj (k, v). jsDefine obj k v) [] entries"

text \<open>
  \<open>Array.prototype.sort\<close> with a comparator is a stable sort; \<open>localeCompare\<close>, the
  collation of the host's locale, is a parameter \<open>lc\<close> (negative, zero or positive).
\<close>

fun insertBy :: "(string \<Rightarrow> string \<Rightarrow> int) \<Rightarrow> string \<times> string \<Rightarrow> (string \<times> string) list
                   \<Rightarrow> (string \<times> string) list" where
  "insertBy lc x [] = [x]"
| "insertBy lc x (y # ys) = (if lc (fst x) (fst y) < 0 then x # y # ys else y # insertBy lc x ys)"

definition sortEntries :: "(string \<Rightarrow> string \<Rightarrow> int) \<Rightarrow> (string \<times> string) list \<Rightarrow> (string \<times> string) list" where
  "sortEntries lc entries = foldr (insertBy lc) entries []"

text \<open>\<open>JSON.stringify(obj, null, 2)\<close> for an object whose values are strings.\<close>

definition hexDigit :: "nat \<Rightarrow> char" where
  "hexDigit n = ''0123456789abcdef'' ! (n mod 16)"

definition quoteJsonChar :: "char \<Rightarrow> string" where
  "quoteJsonChar c =
     (if c = CHR 0x22 then [CHR 0x5C, CHR 0x22]
      else if c = CHR 0x5C then [CHR 0x5C, CHR 0x5C]
      else if c = CHR 0x08 then [CHR 0x5C, CHR ''b'']
      else if c = CHR 0x0C then [CHR 0x5C, CHR ''f'']
      else if c = CHR 0x0A then [CHR 0x5C, CHR ''n'']
      else if c = CHR 0x0D then [CHR 0x5C, CHR ''r'']
      else if c = CHR 0x09 then [CHR 0x5C, CHR ''t'']
      else if (of_char c :: nat) < 32
      then [CHR 0x5C, CHR ''u'', CHR ''0'', CHR ''0'', hexDigit (of_char c div 16), hexDigit (of_char c)]
      else [c])"

definition quoteJson :: "string \<Rightarrow> string" where
  "quoteJson s = [CHR 0x22] @ concat (map quoteJsonChar s) @ [CHR 0x22]"

fun joinLines :: "string list \<Rightarrow> string" where
  "joinLines [] = []"
| "joinLines [l] = l"
| "joinLines (l # m # ls) = l @ [CHR '','', CHR 0x0A] @ joinLines (m # ls)"

definition stringifyPretty :: "KnownHostsMap \<Rightarrow> string" where
  "stringifyPretty obj =
     (if obj = [] then ''{}''
      else [CHR ''{'', CHR 0x0A]
           @ joinLines (map (\<lambda>(k, v). ''  '' @ quoteJson k @ '': '' @ quoteJson v) obj)
           @ [CHR 0x0A, CHR ''}''])"

text \<open>What \<open>JSON.parse\<close> returns; the parser itself is a parameter.\<close>

datatype json =
    JNull | JBool bool | JNumber int | JString string
  | JArray "json list" | JObject "(string \<times> json) list"

text \<open>
  \<open>normalizeFingerprint\<close>. \<open>String.prototype.toLowerCase\<close>, the case mapping of
  Unicode, is a parameter of this and of the functions below.
\<close>

definition isLowerHex :: "char \<Rightarrow> bool" where
  "isLowerHex c \<longleftrightarrow> c \<in> set ''0123456789abcdef''"

definition normalizeFingerprint :: "(string \<Rightarrow> string) \<Rightarrow> string \<Rightarrow> string + string" where
  "normalizeFingerprint toLowerCase input =
     (let normalized = toLowerCase (trim (filter (\<lambda>c. c \<noteq> CHR '':'') input))
      in if \<not> (length normalized = 64 \<and> list_all isLowerHex normalized)
         then Inl ''TLS fingerprint must be SHA-256 hex (64 chars, colon optional)''
         else Inr normalized)"

text \<open>\<open>getPeerFingerprint\<close>, on the raw certificate of the peer if it has one.\<close>

definition getPeerFingerprint :: "(bytes \<Rightarrow> string) \<Rightarrow> bytes option \<Rightarrow> string + string" where
  "getPeerFingerprint H raw =
     (case raw of None \<Rightarrow> Inl ''cannot read server TLS certificate'' | Some der \<Rightarrow> Inr (H der))"

definition buildEndpointKey :: "(string \<Rightarrow> string) \<Rightarrow> string \<Rightarrow> nat \<Rightarrow> string" where
  "buildEndpointKey toLowerCase hostName portNumber = toLowerCase hostName @ '':'' @ showNat portNumber"

text \<open>The loop of \<open>loadKnownHosts\<close> over the entries of the parsed object.\<close>

fun collectKnownHosts ::
  "(string \<Rightarrow> string) \<Rightarrow> (string \<times> json) list \<Rightarrow> KnownHostsMap \<Rightarrow> string + KnownHostsMap" where
  "collectKnownHosts toLowerCase [] result = Inr result"
| "collectKnownHosts toLowerCase ((k, v) # entries) result =
     (case v of
        JString text \<Rightarrow>
          (case normalizeFingerprint toLowerCase text of
             Inl err \<Rightarrow> Inl err
           | Inr fingerprint \<Rightarrow> collectKnownHosts toLowerCase entries (jsSet result k fingerprint))
      | _ \<Rightarrow> collectKnownHosts toLowerCase entries result)"

definition loadKnownHosts ::
  "(string \<Rightarrow> string) \<Rightarrow> (string \<Rightarrow> string + json) \<Rightarrow> filesystem \<Rightarrow> string
     \<Rightarrow> string + KnownHostsMap" where
  "loadKnownHosts toLowerCase parse fs filePath =
     (case fs filePath of
        None \<Rightarrow> Inr []
      | Some (File raw) \<Rightarrow>
          (case parse raw of
             Inl err \<Rightarrow> Inl (''failed to read known hosts: '' @ err)
           | Inr (JObject entries) \<Rightarrow>
               (case collectKnownHosts toLowerCase entries [] of
                  Inl err \<Rightarrow> Inl (''failed to read known hosts: '' @ err)
                | Inr result \<Rightarrow> Inr result)
           | Inr _ \<Rightarrow> Inl ''failed to read known hosts: known hosts file must be a JSON object'')
      | Some Directory \<Rightarrow> Inl ''failed to read known hosts: EISDIR: illegal operation on a directory, read''
      | Some (StatError err) \<Rightarrow> Inl (''failed to read known hosts: '' @ err))"

text \<open>\<open>saveKnownHosts\<close>: the file system after the write (directories are not recorded).\<close>

definition saveKnownHosts ::
  "(string \<Rightarrow> string \<Rightarrow> int) \<Rightarrow> filesystem \<Rightarrow> string \<Rightarrow> KnownHostsMap \<Rightarrow> filesystem" where
  "saveKnownHosts lc fs filePath hosts =
     (let sorted = fromEntries (sortEntries lc hosts)
      in fs(filePath \<mapsto> File (stringifyPretty sorted @ [CHR 0x0A])))"

record VerifyTlsPeerOptions =
  peerCertificate :: "bytes option"
  host :: string
  port :: nat
  expectedFingerprint :: "string option"
  trustOnFirstUse :: bool
  knownHostsPath :: "string option"

text \<open>
  \<open>verifyTlsPeer\<close>: the file system afterwards, or the error thrown. \<open>defaultPath\<close> is
  \<open>getDefaultKnownHostsPath()\<close>.
\<close>

definition verifyTlsPeer ::
  "(bytes \<Rightarrow> string) \<Rightarrow> (string \<Rightarrow> string) \<Rightarrow> (string \<Rightarrow> string + json)
     \<Rightarrow> (string \<Rightarrow> string \<Rightarrow> int) \<Rightarrow> string
     \<Rightarrow> VerifyTlsPeerOptions \<Rightarrow> filesystem \<Rightarrow> string + filesystem" where
  "verifyTlsPeer H toLowerCase parse lc defaultPath options fs =
     (case getPeerFingerprint H (peerCertificate options) of
        Inl err \<Rightarrow> Inl err
      | Inr peerFingerprint \<Rightarrow>
          if truthy (expectedFingerprint options) then
            (case normalizeFingerprint toLowerCase (the (expectedFingerprint options)) of
               Inl err \<Rightarrow> Inl err
             | Inr expected \<Rightarrow>
                 if peerFingerprint \<noteq> expected
                 then Inl (''TLS fingerprint mismatch: expected='' @ expected @ '' actual='' @ peerFingerprint)
                 else Inr fs)
          else if \<not> trustOnFirstUse options then Inr fs
          else
            let endpoint = buildEndpointKey toLowerCase (host options) (port options);
                filePath = (case knownHostsPath options of None \<Rightarrow> defaultPath | Some p \<Rightarrow> p)
            in (case loadKnownHosts toLowerCase parse fs filePath of
                  Inl err \<Rightarrow> Inl err
                | Inr knownHosts \<Rightarrow>
                    if truthy (jsGet knownHosts endpoint) then
                      (if jsGet knownHosts endpoint \<noteq> Some peerFingerprint
                       then Inl (''TLS fingerprint changed for '' @ endpoint @ '': expected=''
                                 @ the (jsGet knownHosts endpoint) @ '' actual='' @ peerFingerprint)
                       else Inr fs)
                    else Inr (saveKnownHosts lc fs filePath (jsSet knownHosts endpoint peerFingerprint))))"

section \<open>Sample data\<close>

text \<open>
  A receiver, a sender and their surroundings, for the runs that are evaluated below.
  The digest of the sample is a tag put before the bytes, the decoders take the path of
  the header and the offset of \<open>ready\<close> from the line and fix the other fields.
\<close>

definition sampleHeader :: TransferHeader where
  "sampleHeader = \<lparr> h_type = ''header'', h_version = 1, relativePath = ''a.txt'', fileSize = 5,
                    sha256 = ''sha:hello'', h_pairCode = Some ''123456'' \<rparr>"

definition sampleEnv :: env where
  "sampleEnv = \<lparr> e_sha256 = (\<lambda>b. ''sha:'' @ b),
                 e_decode = (\<lambda>l. Inr (sampleHeader \<lparr> relativePath := l \<rparr>)),
                 e_shortTag = take 16,
                 e_cwd = ''/home/u'', e_renameError = (\<lambda>a b. None), e_now = 1000,
                 e_remoteAddress = Some ''::ffff:10.0.0.2'' \<rparr>"

definition sampleOptions :: ListenOptions where
  "sampleOptions = \<lparr> outputDir = ''/recv'', pairCode = Some ''123456'', rotatePairCodePerTransfer = True,
                     pairCodeTtlSeconds = None,
                     generatePairCode = Some (\<lambda>k. if k = 0 then ''123456'' else ''654321''),
                     confirmTransfer = None \<rparr>"

definition sampleReceiver :: receiver where
  "sampleReceiver = \<lparr> pairing = \<lparr> currentCode = Some ''123456'', previousCode = None,
                                    previousCodeValidUntilMs = 0, activeTransfers = 0 \<rparr>,
                      genCalls = 0, notified = [] \<rparr>"

text \<open>
  What the sample receiver is sent: the header line and five bytes in two chunks, then
  the end of the peer's side; and the same with another last byte.
\<close>

definition sampleEvents :: "socket_event list" where
  "sampleEvents = [Data (''a.txt'' @ [newline] @ ''hel''), Data ''lo'', End]"

definition sampleBadEvents :: "socket_event list" where
  "sampleBadEvents = [Data (''a.txt'' @ [newline] @ ''hel''), Data ''lx'', End]"




section \<open>Properties of the pairing state\<close>

lemma regenerate_result:
  "\<exists>k. k \<le> 5 - i
       \<and> regenerate g (Some c) i (g m) (Suc m) = (g (m + k), Suc (m + k))
       \<and> (\<forall>j<k. g (m + j) = c)
       \<and> (k < 5 - i \<longrightarrow> g (m + k) \<noteq> c)"
proof (induction "5 - i" arbitrary: i m)
  case 0
  then have "regenerate g (Some c) i (g m) (Suc m) = (g m, Suc m)"
    by (simp add: regenerate.simps)
  with 0 show ?case by (intro exI [of _ 0]) simp
next
  case (Suc d)
  show ?case
  proof (cases "g m = c")
    case False
    then have "regenerate g (Some c) i (g m) (Suc m) = (g m, Suc m)"
      by (simp add: regenerate.simps)
    with False show ?thesis by (intro exI [of _ 0]) simp
  next
    case True
    from Suc.hyps(2) have lt: "i < 5" and d: "d = 5 - (i + 1)" by simp_all
    from Suc.hyps(1) [OF d, of "Suc m"] obtain k where k:
      "k \<le> 5 - (i + 1)"
      "regenerate g (Some c) (i + 1) (g (Suc m)) (Suc (Suc m)) = (g (Suc m + k), Suc (Suc m + k))"
      "\<forall>j<k. g (Suc m + j) = c"
      "k < 5 - (i + 1) \<longrightarrow> g (Suc m + k) \<noteq> c"
      by blast
    have unfold: "regenerate g (Some c) i (g m) (Suc m)
                    = regenerate g (Some c) (i + 1) (g (Suc m)) (Suc (Suc m))"
      using True lt by (subst regenerate.simps) simp
    have all: "\<forall>j<Suc k. g (m + j) = c"
    proof (intro allI impI)
      fix j assume "j < Suc k"
      then show "g (m + j) = c"
        using True k(3) by (cases j) auto
    qed
    have "Suc k \<le> 5 - i" and "Suc k < 5 - i \<longrightarrow> g (m + Suc k) \<noteq> c"
      using k(1,4) lt by auto
    then show ?thesis
      using k(2) unfold all by (intro exI [of _ "Suc k"]) simp
  qed
qed

text \<open>
  C4. Admission accepts a header iff the current code is null or empty, or the header's
  code is the current code, or it is the previous code, which is neither null nor empty,
  and the time is at most \<open>previousCodeValidUntilMs\<close>.
\<close>

theorem isPairCodeAccepted_admission:
  "isPairCodeAccepted ps now incomingCode \<longleftrightarrow>
     (currentCode ps = None \<or> currentCode ps = Some []
      \<or> incomingCode = currentCode ps
      \<or> (previousCode ps \<noteq> None \<and> previousCode ps \<noteq> Some [] \<and> incomingCode = previousCode ps
          \<and> now \<le> previousCodeValidUntilMs ps))"
  by (auto simp: isPairCodeAccepted_def truthy_def split: option.splits)

theorem isPairCodeAccepted_admission_witness:
  "isPairCodeAccepted
     \<lparr> currentCode = Some ''888888'', previousCode = Some ''777777'',
       previousCodeValidUntilMs = 2000, activeTransfers = 1 \<rparr> 1500 (Some ''777777'')
   \<and> \<not> isPairCodeAccepted
     \<lparr> currentCode = Some ''888888'', previousCode = Some ''777777'',
       previousCodeValidUntilMs = 2000, activeTransfers = 1 \<rparr> 2001 (Some ''777777'')
   \<and> isPairCodeAccepted
     \<lparr> currentCode = Some [], previousCode = None,
       previousCodeValidUntilMs = 0, activeTransfers = 0 \<rparr> 2001 None"
  using isPairCodeAccepted_admission
    [of "\<lparr> currentCode = Some ''888888'', previousCode = Some ''777777'',
           previousCodeValidUntilMs = 2000, activeTransfers = 1 \<rparr>" 1500 "Some ''777777''"]
    isPairCodeAccepted_admission
    [of "\<lparr> currentCode = Some ''888888'', previousCode = Some ''777777'',
           previousCodeValidUntilMs = 2000, activeTransfers = 1 \<rparr>" 2001 "Some ''777777''"]
    isPairCodeAccepted_admission
    [of "\<lparr> currentCode = Some [], previousCode = None,
           previousCodeValidUntilMs = 0, activeTransfers = 0 \<rparr>" 2001 None]
  by simp

text \<open>
  A receiver started with the empty string as its pair code keeps it as the current
  code, which is not null, and admits a header that carries another code.
\<close>

theorem empty_current_code_admits_any_code:
  "startReceiver \<lparr> outputDir = ''recv'', pairCode = Some [], rotatePairCodePerTransfer = False,
                   pairCodeTtlSeconds = None, generatePairCode = None, confirmTransfer = None \<rparr>
     = Inr (\<lparr> pairing = \<lparr> currentCode = Some [], previousCode = None,
                           previousCodeValidUntilMs = 0, activeTransfers = 0 \<rparr>,
               genCalls = 0, notified = [] \<rparr>, False)
   \<and> isPairCodeAccepted \<lparr> currentCode = Some [], previousCode = None,
                           previousCodeValidUntilMs = 0, activeTransfers = 0 \<rparr> 1500 (Some ''123456'')
   \<and> currentCode \<lparr> currentCode = Some [], previousCode = None,
                    previousCodeValidUntilMs = 0, activeTransfers = 0 \<rparr> \<noteq> None
   \<and> Some ''123456'' \<noteq> currentCode \<lparr> currentCode = Some [], previousCode = None,
                                       previousCodeValidUntilMs = 0, activeTransfers = 0 \<rparr>
   \<and> Some ''123456'' \<noteq> previousCode \<lparr> currentCode = Some [], previousCode = None,
                                        previousCodeValidUntilMs = 0, activeTransfers = 0 \<rparr>"
  by (simp add: startReceiver_def isPairCodeAccepted_def truthy_def ttlMs_def)

text \<open>
  C5. A TTL tick with transfers in flight leaves the receiver's state as it is. With none
  in flight (and the timer installed: a generator, a positive TTL and a current code) the
  tick makes a freshly generated code current (the first of up to six draws that differs
  from the old code, else the sixth), keeps the old code as the previous code and lets it
  expire \<open>ttl\<close> seconds after the tick.
\<close>

theorem ttlTick_rotation:
  assumes "generatePairCode options = Some g"
      and "pairCodeTtlSeconds options = Some t" and "0 < t"
      and "currentCode (pairing r) = Some c" and "c \<noteq> []"
  shows "(0 < activeTransfers (pairing r) \<longrightarrow> ttlTick options now r = r)
       \<and> (activeTransfers (pairing r) = 0 \<longrightarrow>
            (\<exists>k\<le>5. currentCode (pairing (ttlTick options now r)) = Some (g (genCalls r + k))
                   \<and> genCalls (ttlTick options now r) = genCalls r + k + 1
                   \<and> (\<forall>j<k. g (genCalls r + j) = c)
                   \<and> (k < 5 \<longrightarrow> g (genCalls r + k) \<noteq> c))
            \<and> previousCode (pairing (ttlTick options now r)) = Some c
            \<and> previousCodeValidUntilMs (pairing (ttlTick options now r)) = now + t * 1000
            \<and> activeTransfers (pairing (ttlTick options now r)) = 0)"
proof -
  obtain k where k: "k \<le> 5"
      "regenerate g (Some c) 0 (g (genCalls r)) (Suc (genCalls r)) = (g (genCalls r + k), Suc (genCalls r + k))"
      "\<forall>j<k. g (genCalls r + j) = c" "k < 5 \<longrightarrow> g (genCalls r + k) \<noteq> c"
    using regenerate_result [of 0 g c "genCalls r"] by auto
  have ms: "ttlMs options = Some (t * 1000)"
    using assms(2,3) by (simp add: ttlMs_def)
  have busy: "0 < activeTransfers (pairing r) \<Longrightarrow> ttlTick options now r = r"
    by (simp add: ttlTick_def)
  have idle: "activeTransfers (pairing r) = 0 \<Longrightarrow>
      ttlTick options now r =
        r \<lparr> pairing := (pairing r) \<lparr> currentCode := Some (g (genCalls r + k)),
                                     previousCode := Some c,
                                     previousCodeValidUntilMs := now + t * 1000 \<rparr>,
            genCalls := Suc (genCalls r + k),
            notified := notified r @ [(g (genCalls r + k), Ttl)] \<rparr>"
    using assms(1,4,5) k(2) ms
    by (simp add: ttlTick_def rotatePairCode_def truthy_def)
  show ?thesis
  proof (intro conjI impI)
    assume "0 < activeTransfers (pairing r)"
    then show "ttlTick options now r = r" by (rule busy)
  next
    assume z: "activeTransfers (pairing r) = 0"
    show "\<exists>k\<le>5. currentCode (pairing (ttlTick options now r)) = Some (g (genCalls r + k))
                   \<and> genCalls (ttlTick options now r) = genCalls r + k + 1
                   \<and> (\<forall>j<k. g (genCalls r + j) = c)
                   \<and> (k < 5 \<longrightarrow> g (genCalls r + k) \<noteq> c)"
      using k(1,3,4) idle [OF z] by (intro exI [of _ k]) simp
  next
    assume z: "activeTransfers (pairing r) = 0"
    show "previousCode (pairing (ttlTick options now r)) = Some c"
      using idle [OF z] by simp
  next
    assume z: "activeTransfers (pairing r) = 0"
    show "previousCodeValidUntilMs (pairing (ttlTick options now r)) = now + t * 1000"
      using idle [OF z] by simp
  next
    assume z: "activeTransfers (pairing r) = 0"
    show "activeTransfers (pairing (ttlTick options now r)) = 0"
      using idle [OF z] z by simp
  qed
qed

theorem ttlTick_rotation_witness:
  "previousCode (pairing (ttlTick
      \<lparr> outputDir = ''/recv'', pairCode = Some ''777777'', rotatePairCodePerTransfer = False,
        pairCodeTtlSeconds = Some 2, generatePairCode = Some (\<lambda>k. if k = 0 then ''888888'' else ''999999''),
        confirmTransfer = None \<rparr> 5000
      \<lparr> pairing = \<lparr> currentCode = Some ''777777'', previousCode = None,
                    previousCodeValidUntilMs = 0, activeTransfers = 0 \<rparr>,
        genCalls = 0, notified = [] \<rparr>)) = Some ''777777''
   \<and> previousCodeValidUntilMs (pairing (ttlTick
      \<lparr> outputDir = ''/recv'', pairCode = Some ''777777'', rotatePairCodePerTransfer = False,
        pairCodeTtlSeconds = Some 2, generatePairCode = Some (\<lambda>k. if k = 0 then ''888888'' else ''999999''),
        confirmTransfer = None \<rparr> 5000
      \<lparr> pairing = \<lparr> currentCode = Some ''777777'', previousCode = None,
                    previousCodeValidUntilMs = 0, activeTransfers = 0 \<rparr>,
        genCalls = 0, notified = [] \<rparr>)) = 7000"
  using ttlTick_rotation
    [of "\<lparr> outputDir = ''/recv'', pairCode = Some ''777777'', rotatePairCodePerTransfer = False,
        pairCodeTtlSeconds = Some 2, generatePairCode = Some (\<lambda>k. if k = 0 then ''888888'' else ''999999''),
        confirmTransfer = None \<rparr>"
        "\<lambda>k. if k = 0 then ''888888'' else ''999999''" 2
        "\<lparr> pairing = \<lparr> currentCode = Some ''777777'', previousCode = None,
                    previousCodeValidUntilMs = 0, activeTransfers = 0 \<rparr>,
          genCalls = 0, notified = [] \<rparr>" "''777777''" 5000]
  by simp

section \<open>Resume offset\<close>

text \<open>
  C3. The resume offset computed from the temp file, with \<open>s\<close> the size of the file:
  0 if the file does not exist or \<open>s \<le> 0\<close>; 0 if \<open>s\<close> exceeds the announced size; if
  \<open>s\<close> equals it, the announced size when the digest of the whole file is the header's
  (the hasher is fed the whole file) and 0 otherwise; and \<open>s\<close> if \<open>0 < s < fileSize\<close>
  (the hasher is fed the first \<open>s\<close> bytes).
\<close>


theorem decideResumeOffset_cases:
  "(fs path = None \<longrightarrow>
      decideResumeOffset H fs path expectedSize digest fed = Inr (0, fed))
 \<and> (fs path = Some (File content) \<longrightarrow>
      (let s = int (length content) in
        (s \<le> 0 \<longrightarrow> decideResumeOffset H fs path expectedSize digest fed = Inr (0, fed))
      \<and> (s > expectedSize \<longrightarrow> decideResumeOffset H fs path expectedSize digest fed = Inr (0, fed))
      \<and> (s = expectedSize \<and> H content = digest \<longrightarrow>
            decideResumeOffset H fs path expectedSize digest fed = Inr (expectedSize, fed @ content))
      \<and> (s = expectedSize \<and> H content \<noteq> digest \<longrightarrow>
            decideResumeOffset H fs path expectedSize digest fed = Inr (0, fed))
      \<and> (0 < s \<and> s < expectedSize \<longrightarrow>
            decideResumeOffset H fs path expectedSize digest fed = Inr (s, fed @ take (nat s) content))))"
  by (auto simp: decideResumeOffset_def updateHashFromFilePrefix_def Let_def)

theorem decideResumeOffset_cases_witness:
  "decideResumeOffset (\<lambda>b. ''sha:'' @ b) [''/recv/a.txt.part'' \<mapsto> File ''abc''] ''/recv/a.txt.part'' 5 ''sha:abcde'' []
     = Inr (3, ''abc'')
   \<and> decideResumeOffset (\<lambda>b. ''sha:'' @ b) [''/recv/a.txt.part'' \<mapsto> File ''abc''] ''/recv/a.txt.part'' 3 ''sha:abc'' []
     = Inr (3, ''abc'')
   \<and> decideResumeOffset (\<lambda>b. ''sha:'' @ b) [''/recv/a.txt.part'' \<mapsto> File ''abc''] ''/recv/a.txt.part'' 3 ''sha:abd'' []
     = Inr (0, [])"
  using decideResumeOffset_cases
      [of "[''/recv/a.txt.part'' \<mapsto> File ''abc'']" "''/recv/a.txt.part''" "\<lambda>b. ''sha:'' @ b" 5 "''sha:abcde''" "[]" "''abc''"]
    decideResumeOffset_cases
      [of "[''/recv/a.txt.part'' \<mapsto> File ''abc'']" "''/recv/a.txt.part''" "\<lambda>b. ''sha:'' @ b" 3 "''sha:abc''" "[]" "''abc''"]
    decideResumeOffset_cases
      [of "[''/recv/a.txt.part'' \<mapsto> File ''abc'']" "''/recv/a.txt.part''" "\<lambda>b. ''sha:'' @ b" 3 "''sha:abd''" "[]" "''abc''"]
  by simp

section \<open>Framing\<close>

lemma startsWith_hd: "w \<noteq> [] \<Longrightarrow> startsWith s w \<Longrightarrow> s \<noteq> [] \<and> hd s = hd w"
  by (cases s; cases w) simp_all

lemma dropLeading_Nil [simp]: "dropLeading codes [] = []"
proof -
  have "find (\<lambda>w. w \<noteq> [] \<and> startsWith [] w) codes = None"
    by (induction codes) (auto dest: startsWith_hd)
  then show ?thesis by (subst dropLeading.simps) simp
qed

lemma dropLeading_plain:
  assumes "s \<noteq> []" and "hd s \<notin> hd ` set codes"
  shows "dropLeading codes s = s"
proof -
  have "find (\<lambda>w. w \<noteq> [] \<and> startsWith s w) codes = None"
    using assms(2) by (auto simp: find_None_iff dest: startsWith_hd)
  then show ?thesis by (subst dropLeading.simps) simp
qed

lemma dropLeading_spaces:
  "dropLeading (map rev whiteSpaceCodes) (replicate n (CHR '' '') @ s)
     = dropLeading (map rev whiteSpaceCodes) s"
proof (induction n)
  case 0
  show ?case by simp
next
  case (Suc n)
  have "find (\<lambda>w. w \<noteq> [] \<and> startsWith (CHR '' '' # replicate n (CHR '' '') @ s) w)
          (map rev whiteSpaceCodes) = Some [CHR '' '']"
    by (simp add: whiteSpaceCodes_def)
  then have "dropLeading (map rev whiteSpaceCodes) (replicate (Suc n) (CHR '' '') @ s)
               = dropLeading (map rev whiteSpaceCodes) (replicate n (CHR '' '') @ s)"
    by (subst dropLeading.simps) simp
  with Suc show ?case by simp
qed

lemma trim_Nil [simp]: "trim [] = []"
  by (simp add: trim_def trimStart_def trimEnd_def)

lemma trim_padded:
  assumes "j \<noteq> []" and "hd j \<notin> hd ` set whiteSpaceCodes" and "last j \<notin> last ` set whiteSpaceCodes"
  shows "trim (j @ replicate n (CHR '' '')) = j"
proof -
  have 1: "trimStart (j @ replicate n (CHR '' '')) = j @ replicate n (CHR '' '')"
    unfolding trimStart_def using assms(1,2) by (intro dropLeading_plain) auto
  have "hd ` set (map rev whiteSpaceCodes) = last ` set whiteSpaceCodes"
    by (simp add: whiteSpaceCodes_def)
  then have "hd (rev j) \<notin> hd ` set (map rev whiteSpaceCodes)"
    using assms(1,3) by (simp add: hd_rev)
  then have 2: "dropLeading (map rev whiteSpaceCodes) (rev j) = rev j"
    using assms(1) by (intro dropLeading_plain) auto
  show ?thesis
    by (simp add: trim_def 1 trimEnd_def dropLeading_spaces 2)
qed

lemma trim_plain:
  assumes "j \<noteq> []" and "hd j \<notin> hd ` set whiteSpaceCodes" and "last j \<notin> last ` set whiteSpaceCodes"
  shows "trim j = j"
  using trim_padded [OF assms, of 0] by simp












section \<open>Normalized paths\<close>

lemma dotsFirst_snoc:
  "dotsFirst xs \<Longrightarrow> s \<noteq> ''..'' \<Longrightarrow> dotsFirst (xs @ [s])"
  by (induction xs) auto

lemma dotsFirst_butlast:
  "dotsFirst (xs @ [s]) \<Longrightarrow> dotsFirst xs"
  by (induction xs) (auto split: if_splits)

lemma dotsFirst_all_dots:
  "dotsFirst (xs @ [''..'']) \<Longrightarrow> dotsFirst (xs @ [''..'', ''..''])"
  by (induction xs) (auto split: if_splits)

lemma dotsFirst_normalizeSegments:
  "dotsFirst (rev kept) \<Longrightarrow> dotsFirst (normalizeSegments a kept segs)"
proof (induction a kept segs rule: normalizeSegments.induct)
  case (1 a kept)
  then show ?case by simp
next
  case (2 a kept seg segs)
  show ?case
  proof (cases "seg = [] \<or> seg = ''.''")
    case True
    with 2 show ?thesis by auto
  next
    case skip: False
    show ?thesis
    proof (cases "seg = ''..''")
      case False
      with skip 2 show ?thesis by (auto intro: dotsFirst_snoc)
    next
      case dd: True
      show ?thesis
      proof (cases kept)
        case Nil
        with skip dd 2 show ?thesis by auto
      next
        case (Cons t below)
        show ?thesis
        proof (cases "t = ''..''")
          case True
          have "dotsFirst (rev (''..'' # kept))"
            using "2.prems" Cons True dotsFirst_all_dots [of "rev below"] by simp
          with skip dd Cons True 2 show ?thesis by auto
        next
          case False
          have "dotsFirst (rev below)"
            using "2.prems" Cons dotsFirst_butlast [of "rev below" t] by simp
          with skip dd Cons False 2 show ?thesis by auto
        qed
      qed
    qed
  qed
qed

lemma no_dots_normalizeSegments:
  "''..'' \<notin> set kept \<Longrightarrow> ''..'' \<notin> set (normalizeSegments False kept segs)"
  by (induction "False" kept segs rule: normalizeSegments.induct)
     (auto split: list.splits if_splits)

lemma splitSlash_nonempty [simp]: "splitSlash s \<noteq> []"
  by (induction s) (auto split: list.splits)

lemma splitSlash_no_slash: "seg \<in> set (splitSlash s) \<Longrightarrow> CHR ''/'' \<notin> set seg"
  by (induction s arbitrary: seg) (auto split: list.splits if_splits)

lemma plain_normalizeSegments:
  "\<forall>s\<in>set kept. plainSegment s \<Longrightarrow> \<forall>s\<in>set segs. CHR ''/'' \<notin> set s
     \<Longrightarrow> \<forall>s\<in>set (normalizeSegments a kept segs). plainSegment s"
proof (induction a kept segs rule: normalizeSegments.induct)
  case (1 a kept)
  then show ?case by simp
next
  case (2 a kept seg segs)
  have seg: "CHR ''/'' \<notin> set seg" and rest: "\<forall>s\<in>set segs. CHR ''/'' \<notin> set s"
    using "2.prems"(2) by simp_all
  show ?case
  proof (cases "seg = [] \<or> seg = ''.''")
    case True
    with "2.IH"(1) "2.prems"(1) rest show ?thesis by simp
  next
    case skip: False
    show ?thesis
    proof (cases "seg = ''..''")
      case False
      have "\<forall>s\<in>set (seg # kept). plainSegment s"
        using "2.prems"(1) seg skip by (simp add: plainSegment_def)
      with skip False "2.IH"(5) rest show ?thesis by simp
    next
      case dd: True
      show ?thesis
      proof (cases kept)
        case Nil
        have "\<forall>s\<in>set (if a then [''..''] else []). plainSegment s"
          by (simp add: plainSegment_def)
        with skip dd Nil "2.IH"(2) rest show ?thesis by simp
      next
        case (Cons t below)
        show ?thesis
        proof (cases "t = ''..''")
          case True
          have "\<forall>s\<in>set (if a then ''..'' # kept else kept). plainSegment s"
            using "2.prems"(1) by (simp add: plainSegment_def)
          with skip dd Cons True "2.IH"(4) [of t below] rest show ?thesis by simp
        next
          case False
          have "\<forall>s\<in>set below. plainSegment s"
            using "2.prems"(1) Cons by simp
          with skip dd Cons False "2.IH"(3) [of t below] rest show ?thesis by simp
        qed
      qed
    qed
  qed
qed

lemma splitSlash_plain_append:
  "CHR ''/'' \<notin> set s \<Longrightarrow> splitSlash (s @ CHR ''/'' # t) = s # splitSlash t"
  by (induction s) auto

lemma splitSlash_plain: "CHR ''/'' \<notin> set s \<Longrightarrow> splitSlash s = [s]"
  by (induction s) auto

lemma splitSlash_joinSlash:
  "segs \<noteq> [] \<Longrightarrow> \<forall>s\<in>set segs. CHR ''/'' \<notin> set s \<Longrightarrow> splitSlash (joinSlash segs) = segs"
  by (induction segs rule: joinSlash.induct) (auto simp: splitSlash_plain splitSlash_plain_append)

lemma splitSlash_snoc_slash: "splitSlash (s @ ''/'') = splitSlash s @ [[]]"
  by (induction s) (auto split: list.splits)

lemma hd_joinSlash:
  "segs \<noteq> [] \<Longrightarrow> \<forall>s\<in>set segs. plainSegment s \<Longrightarrow> joinSlash segs \<noteq> [] \<and> hd (joinSlash segs) \<noteq> CHR ''/''"
  by (induction segs rule: joinSlash.induct) (auto simp: plainSegment_def dest: hd_in_set)

lemma joinSlash_Nil_iff:
  "\<forall>s\<in>set segs. plainSegment s \<Longrightarrow> joinSlash segs = [] \<longleftrightarrow> segs = []"
  by (induction segs rule: joinSlash.induct) (auto simp: plainSegment_def)

lemma joinSlash_dots_first:
  "joinSlash (''..'' # segs) @ post = ''..'' @ post \<or> startsWith (joinSlash (''..'' # segs) @ post) ''../''"
  by (cases segs) auto

lemma normalized_segments:
  assumes "segs = normalizeSegments a [] (splitSlash u)"
  shows "dotsFirst segs" and "\<forall>s\<in>set segs. plainSegment s"
proof -
  show "dotsFirst segs"
    unfolding assms by (rule dotsFirst_normalizeSegments) simp
  show "\<forall>s\<in>set segs. plainSegment s"
    unfolding assms by (rule plain_normalizeSegments) (auto dest: splitSlash_no_slash)
qed

lemma accepted_path_shape:
  assumes "normalizeTransferPath input = Inr p"
  shows "p = normalizedForm input \<and> p \<noteq> [] \<and> hd p \<noteq> CHR ''/'' \<and> ''..'' \<notin> set (splitSlash p)"
proof -
  define u where "u = trim (replaceBackslashes input)"
  define n where "n = normalizedForm input"
  have n: "n = dropWhile (\<lambda>c. c = CHR ''/'') (posix_normalize u)"
    by (simp add: n_def u_def normalizedForm_def)
  from assms have pn: "p = n"
    and ok: "n \<noteq> []" "n \<noteq> ''.''" "n \<noteq> ''..''" "\<not> startsWith n ''../''"
    by (auto simp: normalizeTransferPath_def Let_def n_def split: if_splits)
  have "n \<noteq> [] \<and> hd n \<noteq> CHR ''/'' \<and> ''..'' \<notin> set (splitSlash n)"
  proof (cases "u = []")
    case True
    then have "n = ''.''" by (simp add: n posix_normalize_def)
    with ok show ?thesis by simp
  next
    case False
    define abs where "abs = (hd u = CHR ''/'')"
    define post where "post = (if last u = CHR ''/'' then ''/'' else [])"
    define segs where "segs = normalizeSegments (\<not> abs) [] (splitSlash u)"
    have df: "dotsFirst segs" and plain: "\<forall>s\<in>set segs. plainSegment s"
      using normalized_segments [OF segs_def] by auto
    show ?thesis
    proof (cases "segs = []")
      case True
      then have "posix_normalize u = (if abs then ''/'' else if last u = CHR ''/'' then ''./'' else ''.'')"
        using False by (simp add: posix_normalize_def Let_def abs_def segs_def)
      then have "n = [] \<or> n = ''./'' \<or> n = ''.''"
        by (auto simp: n)
      with ok show ?thesis by auto
    next
      case ne: False
      have j: "joinSlash segs \<noteq> []" "hd (joinSlash segs) \<noteq> CHR ''/''"
        using hd_joinSlash [OF ne plain] by auto
      have "posix_normalize u = (if abs then ''/'' else []) @ joinSlash segs @ post"
        using False j(1) by (simp add: posix_normalize_def Let_def abs_def segs_def post_def)
      then have nj: "n = joinSlash segs @ post"
        using j by (cases "joinSlash segs") (auto simp: n)
      have nodots: "''..'' \<notin> set segs"
      proof (cases segs)
        case Nil
        then show ?thesis by simp
      next
        case (Cons s ss)
        have "s \<noteq> ''..''"
        proof
          assume "s = ''..''"
          then have "n = ''..'' @ post \<or> startsWith n ''../''"
            using joinSlash_dots_first [of ss post] Cons nj by simp
          with ok show False by (auto simp: post_def split: if_splits)
        qed
        with df Cons show ?thesis by simp
      qed
      have slashfree: "\<forall>s\<in>set segs. CHR ''/'' \<notin> set s"
        using plain by (simp add: plainSegment_def)
      have "splitSlash n = segs \<or> splitSlash n = segs @ [[]]"
        using splitSlash_joinSlash [OF ne slashfree] splitSlash_snoc_slash [of "joinSlash segs"]
        by (auto simp: nj post_def)
      with nodots have "''..'' \<notin> set (splitSlash n)" by auto
      moreover have "n \<noteq> []" "hd n \<noteq> CHR ''/''"
        using j by (simp_all add: nj)
      ultimately show ?thesis by simp
    qed
  qed
  with pn show ?thesis by (simp add: n_def)
qed

section \<open>Runs of a session\<close>

lemma andThen_Continue [simp]: "andThen (Continue, s) f = f s"
  by (simp add: andThen_def)

lemma andThen_stop: "c \<noteq> Continue \<Longrightarrow> andThen (c, s) f = (c, s)"
  by (cases c) (simp_all add: andThen_def)

lemma checkHeader_cases:
  assumes "checkHeader h s = (c, s')"
  shows "(c = Continue \<and> s' = s \<and> h_type h = ''header'' \<and> h_version h = 1 \<and> 0 \<le> fileSize h \<and> sha256 h \<noteq> [])
       \<or> (\<exists>m. c = Return \<and> s' = fail m False s)"
  using assms by (auto simp: checkHeader_def split: if_splits)

lemma admit_cases:
  assumes "admit e h s = (c, s')"
  shows "(c = Continue \<and> s' = s \<lparr> requiredPairCodeForThisTransfer := currentCode (pairing (rcv s)) \<rparr>
            \<and> isPairCodeAccepted (pairing (rcv s)) (e_now e) (h_pairCode h))
       \<or> (\<exists>m. c = Return \<and> s' = fail m False (s \<lparr> requiredPairCodeForThisTransfer := currentCode (pairing (rcv s)) \<rparr>))"
  using assms by (auto simp: admit_def Let_def split: if_splits)

lemma selectFrom_temp:
  "selectFrom tag cwd fs basePath sha i = Inr (fp, tp) \<Longrightarrow> tp = buildReceiveTempPath tag fp sha"
proof (induction tag cwd fs basePath sha i rule: selectFrom.induct)
  case (1 tag cwd fs basePath sha i)
  from "1.prems" show ?case
    by (subst (asm) selectFrom.simps)
       (auto simp: Let_def split: if_splits sum.splits bool.splits intro: "1.IH")
qed

lemma choosePaths_cases:
  assumes "choosePaths e options h s = (c, s')"
  shows "(\<exists>fp tp. c = Continue
            \<and> s' = s \<lparr> targetPath := fp, tempPath := tp,
                        files := (files s)(posix_dirname fp \<mapsto> Directory) \<rparr>
            \<and> tp = buildReceiveTempPath (e_shortTag e) fp (sha256 h))
       \<or> (\<exists>m fp tp. c = Throw m \<and> s' = s \<lparr> targetPath := fp, tempPath := tp \<rparr>)"
proof (cases "selectReceivePaths (e_shortTag e) (e_cwd e) (files s) (outputDir options) (relativePath h) (sha256 h)")
  case (Inl err)
  with assms have "c = Throw err" "s' = s \<lparr> targetPath := targetPath s, tempPath := tempPath s \<rparr>"
    by (simp_all add: choosePaths_def)
  then show ?thesis by blast
next
  case (Inr res)
  obtain fp tp where res: "res = (fp, tp)" by (cases res)
  with Inr have "tp = buildReceiveTempPath (e_shortTag e) fp (sha256 h)"
    by (auto simp: selectReceivePaths_def split: sum.splits dest: selectFrom_temp)
  with assms Inr res show ?thesis
    by (auto simp: choosePaths_def Let_def split: option.splits node.splits)
qed

lemma askConfirmation_cases:
  assumes "askConfirmation e options h s = (c, s')"
  shows "(c = Continue \<and> s' = s) \<or> (\<exists>m. c = Return \<and> s' = fail m False s)"
  using assms
  by (auto simp: askConfirmation_def split: option.splits TransferConfirmResult.splits if_splits)

lemma buildReceiveTempPath_nonempty [simp]: "buildReceiveTempPath tag fp sha \<noteq> []"
  by (simp add: buildReceiveTempPath_def)

lemma beginReceiving_cases:
  assumes "beginReceiving e h s = (c, s')"
      and "before_ready w r1 s" and "header s = Some h"
      and "requiredPairCodeForThisTransfer s = currentCode (pairing r1)"
      and "isPairCodeAccepted (pairing r1) (e_now e) (h_pairCode h)"
      and "h_type h = ''header''" "h_version h = 1" "0 \<le> fileSize h" "sha256 h \<noteq> []"
      and "tempPath s \<noteq> []"
  shows "(c = Continue \<and> receiving e w r1 h s') \<or> (\<exists>m. c = Throw m \<and> s' = s)"
proof (cases "decideResumeOffset (e_sha256 e) (files s) (tempPath s) (fileSize h) (sha256 h) (hasher s)")
  case (Inl err)
  with assms(1) show ?thesis by (auto simp: beginReceiving_def)
next
  case (Inr res)
  obtain offset seeded where res: "res = (offset, seeded)" by (cases res)
  from Inr res have node: "case files s (tempPath s) of None \<Rightarrow> True | Some (File content) \<Rightarrow> True | Some other \<Rightarrow> False"
    and off: "0 \<le> offset" "offset \<le> fileSize h"
    and pos: "0 < offset \<Longrightarrow> files s (tempPath s) = Some (File (drop (length (hasher s)) seeded))"
    and zero: "offset = 0 \<Longrightarrow> seeded = hasher s"
    using assms(8)
    by (auto simp: decideResumeOffset_def updateHashFromFilePrefix_def Let_def
             split: option.splits node.splits if_splits)
  from assms(1) Inr res have c: "c = Continue"
    and s': "s' = (let s1 = s \<lparr> resumedFrom := offset, hasher := seeded, received := offset \<rparr>;
              s2 = (if offset < fileSize h
                    then s1 \<lparr> fileStream := Some StreamOpen,
                              files := (if offset > 0 then files s1
                                        else (files s1)(tempPath s1 \<mapsto> File [])) \<rparr>
                    else s1)
          in s2 \<lparr> sock := socketWrite (Ready \<lparr> ready_ok = True, ready_offset = offset, ready_message = None,
                              ready_savedPath = Some (targetPath s2) \<rparr>) (sock s2), phase := Receiving \<rparr>)"
    by (simp_all add: beginReceiving_def Let_def)
  have "receiving e w r1 h s'"
    using assms(2-10) node off pos zero
    by (auto simp: s' Let_def receiving_def before_ready_def socketWrite_def split: option.splits node.splits)
  with c show ?thesis by simp
qed

lemma writePayload_receiving:
  assumes "writePayload h chunk s = (c, s')" and "receiving e w r1 h s"
  shows "receiving e w r1 h s' \<and> (c = Continue \<or> (\<exists>m. c = Throw m \<and> s' = s))"
  using assms
  by (auto simp: writePayload_def Let_def receiving_def appendFile_def
           split: if_splits option.splits node.splits)

lemma receivePayload_receiving:
  assumes "receivePayload h s = (c, s')" and "receiving e w r1 h s"
  shows "receiving e w r1 h s'
       \<and> (c = Continue \<or> c = Wait \<or> (\<exists>m. c = Throw m \<and> received s' < fileSize h))"
  using assms
proof (induction h s rule: receivePayload.induct)
  case (1 h s)
  show ?case
  proof (cases "received s < fileSize h")
    case False
    with "1.prems" show ?thesis by (subst (asm) receivePayload.simps) simp
  next
    case lt: True
    show ?thesis
    proof (cases "readChunk (reader s) (inbound s)")
      case Waiting
      with lt "1.prems" show ?thesis by (subst (asm) receivePayload.simps) simp
    next
      case (Threw err)
      with lt "1.prems" show ?thesis by (subst (asm) receivePayload.simps) auto
    next
      case (Returned res)
      obtain got rd events where res: "res = (got, rd, events)" by (cases res)
      let ?s = "s \<lparr> reader := rd, inbound := events \<rparr>"
      have rs: "receiving e w r1 h ?s" using "1.prems"(2) by (simp add: receiving_def)
      show ?thesis
      proof (cases got)
        case None
        with lt Returned res "1.prems"(1) rs show ?thesis
          by (subst (asm) receivePayload.simps) auto
      next
        case (Some chunk)
        obtain c1 s1 where w1: "writePayload h chunk ?s = (c1, s1)" by (cases "writePayload h chunk ?s")
        from writePayload_receiving [OF w1 rs]
        have rs1: "receiving e w r1 h s1" and c1: "c1 = Continue \<or> (\<exists>m. c1 = Throw m \<and> s1 = ?s)" by auto
        show ?thesis
        proof (cases "c1 = Continue")
          case True
          with lt Returned res Some w1 "1.prems"(1) have run: "receivePayload h s1 = (c, s')"
            by (subst (asm) receivePayload.simps) simp
          show ?thesis
          proof (rule "1.IH")
            show "received s < fileSize h" by (rule lt)
            show "readChunk (reader s) (inbound s) = Returned res" by (rule Returned)
            show "(got, (rd, events)) = res" by (simp add: res)
            show "got = Some chunk" by (rule Some)
            show "(rd, events) = (rd, events)" by simp
            show "(c1, s1) = writePayload h chunk ?s" by (simp add: w1)
            show "c1 = Continue" by (rule True)
            show "receivePayload h s1 = (c, s')" by (rule run)
            show "receiving e w r1 h s1" by (rule rs1)
          qed
        next
          case False
          with c1 obtain m where m: "c1 = Throw m" "s1 = ?s" by auto
          with lt Returned res Some w1 "1.prems"(1) have "c = Throw m" "s' = ?s"
            by (subst (asm) receivePayload.simps, simp)+
          with rs lt show ?thesis by simp
        qed
      qed
    qed
  qed
qed

lemma before_ready_accepted:
  "before_ready w (rcv (accepted r fs w events)) (accepted r fs w events)"
  by (simp add: before_ready_def accepted_def)

lemma sessionBody_outcome:
  assumes run: "sessionBody e options (accepted r fs w events) = (c, s')"
  shows "(c = Wait \<and> before_ready w (rcv (accepted r fs w events)) s')
       \<or> (\<exists>m sf. before_ready w (rcv (accepted r fs w events)) sf
                 \<and> ((c = Return \<and> s' = fail m False sf) \<or> (c = Throw m \<and> s' = sf)))
       \<or> (\<exists>h. receiving e w (rcv (accepted r fs w events)) h s'
               \<and> (c = Wait \<or> (\<exists>m. c = Throw m \<and> received s' < fileSize h)))
       \<or> (\<exists>h s6. receiving e w (rcv (accepted r fs w events)) h s6
                 \<and> completeTransfer e options h s6 = (c, s'))"
proof -
  let ?s0 = "accepted r fs w events"
  let ?r1 = "rcv ?s0"
  have b0: "before_ready w ?r1 ?s0" by (rule before_ready_accepted)
  show ?thesis
  proof (cases "readLineMessage (e_decode e) ''header'' (reader ?s0) (inbound ?s0)")
    case Waiting
    with run b0 show ?thesis by (simp add: sessionBody_def)
  next
    case (Threw err)
    with run b0 show ?thesis by (auto simp: sessionBody_def)
  next
    case (Returned res)
    obtain h rd evs where res: "res = (h, rd, evs)" by (cases res)
    let ?s1 = "?s0 \<lparr> header := Some h, reader := rd, inbound := evs \<rparr>"
    have b1: "before_ready w ?r1 ?s1" using b0 by (simp add: before_ready_def)
    have h1: "header ?s1 = Some h" by simp
    from run Returned res have run1:
      "andThen (checkHeader h ?s1) (\<lambda>s.
       andThen (admit e h s) (\<lambda>s.
       andThen (choosePaths e options h s) (\<lambda>s.
       andThen (askConfirmation e options h s) (\<lambda>s.
       andThen (beginReceiving e h s) (\<lambda>s.
       andThen (receivePayload h s) (\<lambda>s.
       completeTransfer e options h s)))))) = (c, s')"
      by (simp add: sessionBody_def)
    obtain c2 s2 where st2: "checkHeader h ?s1 = (c2, s2)" by (cases "checkHeader h ?s1")
    from checkHeader_cases [OF st2] show ?thesis
    proof (elim disjE conjE exE)
      fix m assume "c2 = Return" "s2 = fail m False ?s1"
      with run1 st2 b1 show ?thesis by (auto simp: andThen_def)
    next
      assume c2: "c2 = Continue" and s2: "s2 = ?s1"
         and valid: "h_type h = ''header''" "h_version h = 1" "0 \<le> fileSize h" "sha256 h \<noteq> []"
      from run1 st2 c2 have run2:
        "andThen (admit e h s2) (\<lambda>s.
         andThen (choosePaths e options h s) (\<lambda>s.
         andThen (askConfirmation e options h s) (\<lambda>s.
         andThen (beginReceiving e h s) (\<lambda>s.
         andThen (receivePayload h s) (\<lambda>s.
         completeTransfer e options h s))))) = (c, s')"
        by simp
      obtain c3 s3 where st3: "admit e h s2 = (c3, s3)" by (cases "admit e h s2")
      let ?s2r = "s2 \<lparr> requiredPairCodeForThisTransfer := currentCode (pairing (rcv s2)) \<rparr>"
      have b2r: "before_ready w ?r1 ?s2r" using b1 s2 by (simp add: before_ready_def)
      from admit_cases [OF st3] show ?thesis
      proof (elim disjE conjE exE)
        fix m assume "c3 = Return" "s3 = fail m False ?s2r"
        with run2 st3 b2r show ?thesis by (auto simp: andThen_def)
      next
        assume c3: "c3 = Continue" and s3: "s3 = ?s2r"
           and acc: "isPairCodeAccepted (pairing (rcv s2)) (e_now e) (h_pairCode h)"
        have b3: "before_ready w ?r1 s3" using b2r s3 by simp
        have rq3: "requiredPairCodeForThisTransfer s3 = currentCode (pairing ?r1)"
          and h3: "header s3 = Some h" and rc3: "rcv s2 = ?r1"
          using s3 s2 b1 by (simp_all add: before_ready_def)
        from run2 st3 c3 have run3:
          "andThen (choosePaths e options h s3) (\<lambda>s.
           andThen (askConfirmation e options h s) (\<lambda>s.
           andThen (beginReceiving e h s) (\<lambda>s.
           andThen (receivePayload h s) (\<lambda>s.
           completeTransfer e options h s)))) = (c, s')"
          by simp
        obtain c4 s4 where st4: "choosePaths e options h s3 = (c4, s4)"
          by (cases "choosePaths e options h s3")
        from choosePaths_cases [OF st4] show ?thesis
        proof (elim disjE conjE exE)
          fix m fp tp assume "c4 = Throw m" "s4 = s3 \<lparr> targetPath := fp, tempPath := tp \<rparr>"
          moreover have "before_ready w ?r1 (s3 \<lparr> targetPath := fp, tempPath := tp \<rparr>)"
            using b3 by (simp add: before_ready_def)
          ultimately show ?thesis using run3 st4 by (auto simp: andThen_def)
        next
          fix fp tp
          assume c4: "c4 = Continue"
             and s4: "s4 = s3 \<lparr> targetPath := fp, tempPath := tp,
                                 files := (files s3)(posix_dirname fp \<mapsto> Directory) \<rparr>"
             and tp: "tp = buildReceiveTempPath (e_shortTag e) fp (sha256 h)"
          have b4: "before_ready w ?r1 s4" using b3 s4 by (simp add: before_ready_def)
          have rq4: "requiredPairCodeForThisTransfer s4 = currentCode (pairing ?r1)"
            and h4: "header s4 = Some h" and t4: "tempPath s4 \<noteq> []"
            using s4 rq3 h3 tp by simp_all
          from run3 st4 c4 have run4:
            "andThen (askConfirmation e options h s4) (\<lambda>s.
             andThen (beginReceiving e h s) (\<lambda>s.
             andThen (receivePayload h s) (\<lambda>s.
             completeTransfer e options h s))) = (c, s')"
            by simp
          obtain c5 s5 where st5: "askConfirmation e options h s4 = (c5, s5)"
            by (cases "askConfirmation e options h s4")
          from askConfirmation_cases [OF st5] show ?thesis
          proof (elim disjE conjE exE)
            fix m assume "c5 = Return" "s5 = fail m False s4"
            with run4 st5 b4 show ?thesis by (auto simp: andThen_def)
          next
            assume c5: "c5 = Continue" and s5: "s5 = s4"
            from run4 st5 c5 s5 have run5:
              "andThen (beginReceiving e h s4) (\<lambda>s.
               andThen (receivePayload h s) (\<lambda>s.
               completeTransfer e options h s)) = (c, s')"
              by simp
            obtain c6 s6 where st6: "beginReceiving e h s4 = (c6, s6)"
              by (cases "beginReceiving e h s4")
            from beginReceiving_cases [OF st6 b4 h4 rq4 _ valid t4] acc rc3
            have "(c6 = Continue \<and> receiving e w ?r1 h s6) \<or> (\<exists>m. c6 = Throw m \<and> s6 = s4)"
              by simp
            then show ?thesis
            proof (elim disjE conjE exE)
              fix m assume "c6 = Throw m" "s6 = s4"
              with run5 st6 b4 show ?thesis by (auto simp: andThen_def)
            next
              assume c6: "c6 = Continue" and r6: "receiving e w ?r1 h s6"
              from run5 st6 c6 have run6:
                "andThen (receivePayload h s6) (\<lambda>s. completeTransfer e options h s) = (c, s')"
                by simp
              obtain c7 s7 where st7: "receivePayload h s6 = (c7, s7)"
                by (cases "receivePayload h s6")
              from receivePayload_receiving [OF st7 r6]
              have r7: "receiving e w ?r1 h s7"
                and c7: "c7 = Continue \<or> c7 = Wait \<or> (\<exists>m. c7 = Throw m \<and> received s7 < fileSize h)"
                by auto
              show ?thesis
              proof (cases "c7 = Continue")
                case True
                with run6 st7 have "completeTransfer e options h s7 = (c, s')" by simp
                with r7 show ?thesis by blast
              next
                case False
                with run6 st7 have "c = c7" "s' = s7" by (simp_all add: andThen_stop)
                with False c7 r7 show ?thesis by blast
              qed
            qed
          qed
        qed
      qed
    qed
  qed
qed

lemma completeTransfer_cases:
  assumes "completeTransfer e options h s = (c, s')"
  shows "(received s \<noteq> fileSize h \<and> c = Return \<and> (\<exists>m. s' = fail m False s))
       \<or> (received s = fileSize h \<and> e_sha256 e (hasher s) \<noteq> sha256 h \<and> c = Return
            \<and> s' = fail ''sha256 mismatch'' True (endFileStream s))
       \<or> (received s = fileSize h \<and> e_sha256 e (hasher s) = sha256 h
            \<and> (\<exists>m. c = Throw m \<and> s' = endFileStream s))
       \<or> (received s = fileSize h \<and> e_sha256 e (hasher s) = sha256 h \<and> c = Continue
            \<and> (\<exists>savedPath fs' nextPairCode rcv'.
                  promoteReceivedFile (e_renameError e) (e_cwd e) (files s) (tempPath s) (targetPath s)
                    = Inr (savedPath, fs')
                  \<and> chooseNextPairCode options s = (nextPairCode, rcv')
                  \<and> s' = (endFileStream s)
                       \<lparr> files := fs', phase := Done, rcv := rcv',
                         sock := socketEnd
                           (Ack \<lparr> ack_ok = True, ack_message = None, ack_sha256 = Some (sha256 h),
                                  ack_receivedBytes = Some (received s), ack_savedPath = Some savedPath,
                                  ack_resumedFrom = Some (resumedFrom s), ack_nextPairCode = nextPairCode \<rparr>)
                           (sock s) \<rparr>))"
proof -
  have hs: "hasher (endFileStream s) = hasher s" "files (endFileStream s) = files s"
      "tempPath (endFileStream s) = tempPath s" "targetPath (endFileStream s) = targetPath s"
      "received (endFileStream s) = received s" "resumedFrom (endFileStream s) = resumedFrom s"
      "sock (endFileStream s) = sock s"
    by (simp_all add: endFileStream_def)
  have nx: "chooseNextPairCode options ((endFileStream s) \<lparr> files := fs', phase := Done \<rparr>)
              = chooseNextPairCode options s" for fs'
    by (auto simp: chooseNextPairCode_def endFileStream_def)
  show ?thesis
  proof (cases "received s \<noteq> fileSize h")
    case True
    with assms show ?thesis by (auto simp: completeTransfer_def)
  next
    case size: False
    show ?thesis
    proof (cases "e_sha256 e (hasher s) \<noteq> sha256 h")
      case True
      with size assms show ?thesis by (auto simp: completeTransfer_def Let_def hs)
    next
      case dig: False
      show ?thesis
      proof (cases "promoteReceivedFile (e_renameError e) (e_cwd e) (files s) (tempPath s) (targetPath s)")
        case (Inl err)
        with size dig assms show ?thesis by (auto simp: completeTransfer_def Let_def hs)
      next
        case (Inr res)
        obtain savedPath fs' where res: "res = (savedPath, fs')" by (cases res)
        obtain nextPairCode rcv' where ch: "chooseNextPairCode options s = (nextPairCode, rcv')"
          by (cases "chooseNextPairCode options s")
        from size dig assms Inr res ch show ?thesis
          by (simp add: completeTransfer_def Let_def hs nx)
      qed
    qed
  qed
qed

lemma handler_outcome:
  assumes run: "handleIncomingSocket e options r fs w events = (fin, s')"
  shows "(\<not> fin \<and> (before_ready w (rcv (accepted r fs w events)) s'
                  \<or> (\<exists>h. receiving e w (rcv (accepted r fs w events)) h s')))
       \<or> (fin \<and> (\<exists>m sf. before_ready w (rcv (accepted r fs w events)) sf
                        \<and> s' = release (fail m False sf)))
       \<or> (fin \<and> (\<exists>m h sf. receiving e w (rcv (accepted r fs w events)) h sf
                        \<and> received sf \<noteq> fileSize h \<and> s' = release (fail m False sf)))
       \<or> (fin \<and> (\<exists>h sf. receiving e w (rcv (accepted r fs w events)) h sf
                        \<and> received sf = fileSize h \<and> e_sha256 e (hasher sf) \<noteq> sha256 h
                        \<and> s' = release (fail ''sha256 mismatch'' True (endFileStream sf))))
       \<or> (fin \<and> (\<exists>m h sf. receiving e w (rcv (accepted r fs w events)) h sf
                        \<and> received sf = fileSize h \<and> e_sha256 e (hasher sf) = sha256 h
                        \<and> s' = release (fail m False (endFileStream sf))))
       \<or> (fin \<and> (\<exists>h sf savedPath fs' nextPairCode rcv'.
                      receiving e w (rcv (accepted r fs w events)) h sf
                    \<and> received sf = fileSize h \<and> e_sha256 e (hasher sf) = sha256 h
                    \<and> promoteReceivedFile (e_renameError e) (e_cwd e) (files sf) (tempPath sf) (targetPath sf)
                         = Inr (savedPath, fs')
                    \<and> chooseNextPairCode options sf = (nextPairCode, rcv')
                    \<and> s' = release ((endFileStream sf)
                         \<lparr> files := fs', phase := Done, rcv := rcv',
                           sock := socketEnd
                             (Ack \<lparr> ack_ok = True, ack_message = None, ack_sha256 = Some (sha256 h),
                                    ack_receivedBytes = Some (received sf), ack_savedPath = Some savedPath,
                                    ack_resumedFrom = Some (resumedFrom sf), ack_nextPairCode = nextPairCode \<rparr>)
                             (sock sf) \<rparr>)))"
proof -
  let ?r1 = "rcv (accepted r fs w events)"
  obtain c sb where body: "sessionBody e options (accepted r fs w events) = (c, sb)"
    by (cases "sessionBody e options (accepted r fs w events)")
  have fin: "fin = (c \<noteq> Wait)"
    and s': "s' = (case c of Wait \<Rightarrow> sb | Throw err \<Rightarrow> release (fail err False sb) | _ \<Rightarrow> release sb)"
    using run body by (auto simp: handleIncomingSocket_def split: control.splits)
  from sessionBody_outcome [OF body] show ?thesis
  proof (elim disjE conjE exE)
    assume "c = Wait" "before_ready w ?r1 sb"
    with fin s' show ?thesis by simp
  next
    fix m sf assume "before_ready w ?r1 sf" "c = Return" "sb = fail m False sf"
    with fin s' have "fin" "before_ready w ?r1 sf \<and> s' = release (fail m False sf)" by auto
    then show ?thesis by blast
  next
    fix m sf assume "before_ready w ?r1 sf" "c = Throw m" "sb = sf"
    with fin s' have "fin" "before_ready w ?r1 sf \<and> s' = release (fail m False sf)" by auto
    then show ?thesis by blast
  next
    fix h assume "receiving e w ?r1 h sb" "c = Wait"
    with fin s' show ?thesis by auto
  next
    fix h m assume "receiving e w ?r1 h sb" "c = Throw m" "received sb < fileSize h"
    with fin s' have "fin" "receiving e w ?r1 h sb \<and> received sb \<noteq> fileSize h \<and> s' = release (fail m False sb)"
      by auto
    then show ?thesis by blast
  next
    fix h s6 assume r6: "receiving e w ?r1 h s6" and ct: "completeTransfer e options h s6 = (c, sb)"
    from completeTransfer_cases [OF ct] show ?thesis
    proof (elim disjE conjE exE)
      fix m assume "received s6 \<noteq> fileSize h" "c = Return" "sb = fail m False s6"
      with fin s' r6 have "fin" "receiving e w ?r1 h s6 \<and> received s6 \<noteq> fileSize h \<and> s' = release (fail m False s6)"
        by auto
      then show ?thesis by blast
    next
      assume "received s6 = fileSize h" "e_sha256 e (hasher s6) \<noteq> sha256 h" "c = Return"
        "sb = fail ''sha256 mismatch'' True (endFileStream s6)"
      with fin s' r6 have "fin" "receiving e w ?r1 h s6 \<and> received s6 = fileSize h
          \<and> e_sha256 e (hasher s6) \<noteq> sha256 h \<and> s' = release (fail ''sha256 mismatch'' True (endFileStream s6))"
        by auto
      then show ?thesis by blast
    next
      fix m assume "received s6 = fileSize h" "e_sha256 e (hasher s6) = sha256 h" "c = Throw m"
        "sb = endFileStream s6"
      with fin s' r6 have "fin" "receiving e w ?r1 h s6 \<and> received s6 = fileSize h
          \<and> e_sha256 e (hasher s6) = sha256 h \<and> s' = release (fail m False (endFileStream s6))"
        by auto
      then show ?thesis by blast
    next
      fix savedPath fs' nextPairCode rcv'
      assume a: "received s6 = fileSize h" "e_sha256 e (hasher s6) = sha256 h" "c = Continue"
        "promoteReceivedFile (e_renameError e) (e_cwd e) (files s6) (tempPath s6) (targetPath s6) = Inr (savedPath, fs')"
        "chooseNextPairCode options s6 = (nextPairCode, rcv')"
        "sb = (endFileStream s6)
                       \<lparr> files := fs', phase := Done, rcv := rcv',
                         sock := socketEnd
                           (Ack \<lparr> ack_ok = True, ack_message = None, ack_sha256 = Some (sha256 h),
                                  ack_receivedBytes = Some (received s6), ack_savedPath = Some savedPath,
                                  ack_resumedFrom = Some (resumedFrom s6), ack_nextPairCode = nextPairCode \<rparr>)
                           (sock s6) \<rparr>"
      with fin s' have "fin" "s' = release sb" by auto
      with a r6 show ?thesis by blast
    qed
  qed
qed

section \<open>Framing failures end the session\<close>












section \<open>The shared state and the records sent\<close>

lemma fail_fields [simp]:
  "rcv (fail m cl s) = rcv s" "header (fail m cl s) = header s" "phase (fail m cl s) = phase s"
  "received (fail m cl s) = received s" "hasher (fail m cl s) = hasher s"
  "tempPath (fail m cl s) = tempPath s" "resumedFrom (fail m cl s) = resumedFrom s"
  by (simp_all add: fail_def Let_def)

lemma fail_files:
  "\<not> failed s \<Longrightarrow> files (fail m cl s)
     = (if cl \<and> tempPath s \<noteq> [] then rmForce (files s) (tempPath s) else files s)"
  by (auto simp: fail_def Let_def)

lemma fail_sent:
  "\<not> failed s \<Longrightarrow> sent (sock (fail m cl s))
     = (if writable (sock s)
        then sent (sock s) @
          [if phase s = BeforeReady
           then Ready \<lparr> ready_ok = False, ready_offset = 0, ready_message = Some m, ready_savedPath = None \<rparr>
           else Ack \<lparr> ack_ok = False, ack_message = Some m, ack_sha256 = None,
                      ack_receivedBytes = None, ack_savedPath = None, ack_resumedFrom = None,
                      ack_nextPairCode = None \<rparr>]
        else sent (sock s))"
  by (simp add: fail_def Let_def socketEnd_def socketDestroy_def)

lemma release_fields [simp]:
  "rcv (release s) = endTransfer (rcv s)" "header (release s) = header s" "phase (release s) = phase s"
  "received (release s) = received s" "hasher (release s) = hasher s" "files (release s) = files s"
  "tempPath (release s) = tempPath s" "sock (release s) = sock s"
  by (simp_all add: release_def)

lemma endFileStream_fields [simp]:
  "rcv (endFileStream s) = rcv s" "header (endFileStream s) = header s" "phase (endFileStream s) = phase s"
  "received (endFileStream s) = received s" "hasher (endFileStream s) = hasher s"
  "files (endFileStream s) = files s" "tempPath (endFileStream s) = tempPath s"
  "sock (endFileStream s) = sock s" "failed (endFileStream s) = failed s"
  "resumedFrom (endFileStream s) = resumedFrom s" "targetPath (endFileStream s) = targetPath s"
  by (simp_all add: endFileStream_def)

lemma chooseNextPairCode_active:
  "chooseNextPairCode options s = (nx, r') \<Longrightarrow>
     activeTransfers (pairing r') = activeTransfers (pairing (rcv s))"
  by (auto simp: chooseNextPairCode_def rotatePairCodeOnce_def Let_def split: if_splits prod.splits)

lemma handler_shared_state:
  assumes "handleIncomingSocket e options r fs w events = (fin, s')"
  shows "(\<not> fin \<and> rcv s' = beginTransfer r)
       \<or> (fin \<and> rcv s' = endTransfer (beginTransfer r))
       \<or> (fin \<and> (\<exists>sf. rcv sf = beginTransfer r \<and> rcv s' = endTransfer (snd (chooseNextPairCode options sf))))"
  using handler_outcome [OF assms]
proof (elim disjE conjE exE)
  fix h sf savedPath fs' nextPairCode rcv'
  assume "fin" "receiving e w (rcv (accepted r fs w events)) h sf"
    "chooseNextPairCode options sf = (nextPairCode, rcv')"
    "s' = release ((endFileStream sf)
                         \<lparr> files := fs', phase := Done, rcv := rcv',
                           sock := socketEnd
                             (Ack \<lparr> ack_ok = True, ack_message = None, ack_sha256 = Some (sha256 h),
                                    ack_receivedBytes = Some (received sf), ack_savedPath = Some savedPath,
                                    ack_resumedFrom = Some (resumedFrom sf), ack_nextPairCode = nextPairCode \<rparr>)
                             (sock sf) \<rparr>)"
  then have "fin" "rcv sf = beginTransfer r \<and> rcv s' = endTransfer (snd (chooseNextPairCode options sf))"
    by (simp_all add: receiving_def accepted_def)
  then show ?thesis by blast
qed (auto simp: before_ready_def receiving_def accepted_def)

lemma reachable_count:
  "reachable options r n \<Longrightarrow> activeTransfers (pairing r) = int n"
proof (induction rule: reachable.induct)
  case (started r timer)
  then show ?case
    by (auto simp: startReceiver_def Let_def split: if_splits)
next
  case (accept r n)
  then show ?case by (simp add: beginTransfer_def)
next
  case (finish r n)
  then show ?case by (simp add: endTransfer_def)
next
  case (rotate r n s)
  then show ?case
    using chooseNextPairCode_active [of options s "fst (chooseNextPairCode options s)" "snd (chooseNextPairCode options s)"]
    by simp
next
  case (tick r n now)
  then show ?case
    by (auto simp: ttlTick_def rotatePairCode_def Let_def split: prod.splits)
qed

section \<open>Sample runs\<close>

text \<open>
  The runs of the sample receiver. The generator's first code is the old code, so it is
  asked again.
\<close>

lemma sample_paths:
  "selectReceivePaths (take 16) ''/home/u'' Map.empty ''/recv'' ''a.txt'' ''sha:hello''
     = Inr (''/recv/a.txt'', ''/recv/a.txt.sha:hello.local-sent.part'')"
  by code_simp

lemma sample_dirname: "posix_dirname ''/recv/a.txt'' = ''/recv''"
  by code_simp

lemma sample_trim: "trim ''a.txt'' = ''a.txt''"
  by code_simp

lemma sample_target: "duplicatePathWithIndex ''/home/u'' ''/recv/a.txt'' 0 = ''/recv/a.txt''"
  by (simp add: duplicatePathWithIndex_def)

lemmas sample_unfold =
  handleIncomingSocket_def sessionBody_def accepted_def beginTransfer_def
  sampleEnv_def sampleOptions_def sampleReceiver_def sampleHeader_def sampleEvents_def sampleBadEvents_def
  readLineMessage.simps newline_def sample_trim checkHeader_def admit_def isPairCodeAccepted_def truthy_def
  choosePaths_def sample_paths sample_dirname askConfirmation_def beginReceiving_def decideResumeOffset_def
  socketWrite_def receivePayload.simps readChunk.simps writePayload_def appendFile_def completeTransfer_def
  endFileStream_def promoteReceivedFile_def promoteFrom.simps MAX_DUPLICATE_SUFFIX_ATTEMPTS_def sample_target
  renameFile_def chooseNextPairCode_def rotatePairCodeOnce_def regenerate.simps socketEnd_def socketDestroy_def
  release_def endTransfer_def fail_def rmForce_def Let_def HEADER_MAX_BYTES_def

lemma sample_run:
  "handleIncomingSocket sampleEnv sampleOptions sampleReceiver Map.empty True
     sampleEvents
   = (True, \<lparr> rcv = \<lparr> pairing = \<lparr> currentCode = Some ''654321'', previousCode = None,
                                   previousCodeValidUntilMs = 0, activeTransfers = 0 \<rparr>,
                       genCalls = 2, notified = [(''654321'', Once)] \<rparr>,
               files = [''/recv'' \<mapsto> Directory, ''/recv/a.txt'' \<mapsto> File ''hello''],
               sock = \<lparr> writable = False, destroyed = False,
                        sent = [Ready \<lparr> ready_ok = True, ready_offset = 0, ready_message = None,
                                       ready_savedPath = Some ''/recv/a.txt'' \<rparr>,
                                Ack \<lparr> ack_ok = True, ack_message = None, ack_sha256 = Some ''sha:hello'',
                                      ack_receivedBytes = Some 5, ack_savedPath = Some ''/recv/a.txt'',
                                      ack_resumedFrom = Some 0, ack_nextPairCode = Some ''654321'' \<rparr>] \<rparr>,
               reader = \<lparr> buffer = [], ended = False, error = None \<rparr>,
               inbound = [End],
               header = Some sampleHeader,
               targetPath = ''/recv/a.txt'',
               tempPath = ''/recv/a.txt.sha:hello.local-sent.part'',
               fileStream = Some StreamEnded, phase = Done, failed = False,
               resumedFrom = 0, received = 5,
               requiredPairCodeForThisTransfer = Some ''123456'',
               hasher = ''hello'' \<rparr>)"
  by (simp add: sample_unfold)

lemma sample_run_kept:
  "handleIncomingSocket sampleEnv (sampleOptions \<lparr> rotatePairCodePerTransfer := False \<rparr>) sampleReceiver
     Map.empty True sampleEvents
   = (True, \<lparr> rcv = \<lparr> pairing = \<lparr> currentCode = Some ''123456'', previousCode = None,
                                   previousCodeValidUntilMs = 0, activeTransfers = 0 \<rparr>,
                       genCalls = 0, notified = [] \<rparr>,
               files = [''/recv'' \<mapsto> Directory, ''/recv/a.txt'' \<mapsto> File ''hello''],
               sock = \<lparr> writable = False, destroyed = False,
                        sent = [Ready \<lparr> ready_ok = True, ready_offset = 0, ready_message = None,
                                       ready_savedPath = Some ''/recv/a.txt'' \<rparr>,
                                Ack \<lparr> ack_ok = True, ack_message = None, ack_sha256 = Some ''sha:hello'',
                                      ack_receivedBytes = Some 5, ack_savedPath = Some ''/recv/a.txt'',
                                      ack_resumedFrom = Some 0, ack_nextPairCode = Some ''123456'' \<rparr>] \<rparr>,
               reader = \<lparr> buffer = [], ended = False, error = None \<rparr>,
               inbound = [End],
               header = Some sampleHeader,
               targetPath = ''/recv/a.txt'',
               tempPath = ''/recv/a.txt.sha:hello.local-sent.part'',
               fileStream = Some StreamEnded, phase = Done, failed = False,
               resumedFrom = 0, received = 5,
               requiredPairCodeForThisTransfer = Some ''123456'',
               hasher = ''hello'' \<rparr>)"
  by (simp add: sample_unfold)

lemma sample_run_mismatch:
  "handleIncomingSocket sampleEnv sampleOptions sampleReceiver Map.empty canWrite
     sampleBadEvents
   = (True, \<lparr> rcv = sampleReceiver,
               files = [''/recv'' \<mapsto> Directory],
               sock = \<lparr> writable = False, destroyed = True,
                        sent = (if canWrite
                                then [Ready \<lparr> ready_ok = True, ready_offset = 0, ready_message = None,
                                             ready_savedPath = Some ''/recv/a.txt'' \<rparr>,
                                      Ack \<lparr> ack_ok = False, ack_message = Some ''sha256 mismatch'',
                                            ack_sha256 = None, ack_receivedBytes = None,
                                            ack_savedPath = None, ack_resumedFrom = None,
                                            ack_nextPairCode = None \<rparr>]
                                else []) \<rparr>,
               reader = \<lparr> buffer = [], ended = False, error = None \<rparr>,
               inbound = [End],
               header = Some sampleHeader,
               targetPath = ''/recv/a.txt'',
               tempPath = ''/recv/a.txt.sha:hello.local-sent.part'',
               fileStream = Some StreamDestroyed, phase = Receiving, failed = True,
               resumedFrom = 0, received = 5,
               requiredPairCodeForThisTransfer = Some ''123456'',
               hasher = ''hellx'' \<rparr>)"
  by (cases canWrite) (simp_all add: sample_unfold)

lemma sample_reachable:
  "reachable (sampleOptions \<lparr> pairCodeTtlSeconds := Some 60 \<rparr>) (beginTransfer sampleReceiver) (Suc 0)"
proof -
  have "startReceiver (sampleOptions \<lparr> pairCodeTtlSeconds := Some 60 \<rparr>) = Inr (sampleReceiver, True)"
    by (simp add: startReceiver_def sampleOptions_def sampleReceiver_def truthy_def ttlMs_def)
  then have "reachable (sampleOptions \<lparr> pairCodeTtlSeconds := Some 60 \<rparr>) sampleReceiver 0"
    by (rule reachable.started)
  then show ?thesis by (rule reachable.accept)
qed

lemma sample_count: "activeTransfers (pairing sampleReceiver) = 0"
  by (simp add: sampleReceiver_def)

lemma sample_digest: "e_sha256 sampleEnv b = ''sha:'' @ b"
  by (simp add: sampleEnv_def)

section \<open>Transfers in flight\<close>

text \<open>
  C9. The handler counts its connection in \<open>activeTransfers\<close> on accept, before it reads
  anything, and the session it starts with holds the incremented count. A handler that
  has run to its end, whatever the way (a malformed header, a refused pair code, any
  failure, or success), has run its \<open>finally\<close> block, which takes one off the count and
  never lets it go below 0; a handler that is still waiting keeps its connection
  counted. In every state that the receiver can reach, the count is the number of
  handlers that are running, hence not negative, and while a handler is running a
  tick of the rotation timer leaves the state as it is.
\<close>

theorem active_transfers_accounting:
  "rcv (accepted r fs w events) = beginTransfer r
   \<and> activeTransfers (pairing (beginTransfer r)) = activeTransfers (pairing r) + 1
   \<and> (handleIncomingSocket e options r fs w events = (fin, s') \<longrightarrow>
         activeTransfers (pairing (rcv s'))
           = (if fin then max 0 (activeTransfers (pairing r)) else activeTransfers (pairing r) + 1)
         \<and> ((\<not> fin \<and> rcv s' = beginTransfer r)
            \<or> (fin \<and> rcv s' = endTransfer (beginTransfer r))
            \<or> (fin \<and> (\<exists>sf. rcv sf = beginTransfer r
                           \<and> rcv s' = endTransfer (snd (chooseNextPairCode options sf))))))
   \<and> (reachable options r' n \<longrightarrow>
         activeTransfers (pairing r') = int n \<and> 0 \<le> activeTransfers (pairing r')
         \<and> (0 < n \<longrightarrow> ttlTick options now r' = r'))"
proof (intro conjI impI)
  show "rcv (accepted r fs w events) = beginTransfer r" by (simp add: accepted_def)
  show "activeTransfers (pairing (beginTransfer r)) = activeTransfers (pairing r) + 1"
    by (simp add: beginTransfer_def)
next
  assume run: "handleIncomingSocket e options r fs w events = (fin, s')"
  show "(\<not> fin \<and> rcv s' = beginTransfer r)
            \<or> (fin \<and> rcv s' = endTransfer (beginTransfer r))
            \<or> (fin \<and> (\<exists>sf. rcv sf = beginTransfer r
                           \<and> rcv s' = endTransfer (snd (chooseNextPairCode options sf))))"
    by (rule handler_shared_state [OF run])
  then show "activeTransfers (pairing (rcv s'))
           = (if fin then max 0 (activeTransfers (pairing r)) else activeTransfers (pairing r) + 1)"
  proof (elim disjE conjE exE)
    fix sf assume "fin" "rcv sf = beginTransfer r" "rcv s' = endTransfer (snd (chooseNextPairCode options sf))"
    then show ?thesis
      using chooseNextPairCode_active [of options sf "fst (chooseNextPairCode options sf)" "snd (chooseNextPairCode options sf)"]
      by (simp add: endTransfer_def beginTransfer_def)
  qed (simp_all add: endTransfer_def beginTransfer_def)
next
  assume re: "reachable options r' n"
  then show "activeTransfers (pairing r') = int n" by (rule reachable_count)
  then show "0 \<le> activeTransfers (pairing r')" by simp
next
  assume re: "reachable options r' n" and "0 < n"
  with reachable_count [OF re] show "ttlTick options now r' = r'"
    by (simp add: ttlTick_def)
qed

theorem active_transfers_accounting_witness:
  "handleIncomingSocket sampleEnv sampleOptions sampleReceiver Map.empty True
     sampleEvents
     = (True, snd (handleIncomingSocket sampleEnv sampleOptions sampleReceiver Map.empty True
                     sampleEvents))
   \<and> activeTransfers (pairing (rcv (snd (handleIncomingSocket sampleEnv sampleOptions sampleReceiver
        Map.empty True sampleEvents)))) = 0
   \<and> reachable (sampleOptions \<lparr> pairCodeTtlSeconds := Some 60 \<rparr>) (beginTransfer sampleReceiver) (Suc 0)
   \<and> activeTransfers (pairing (beginTransfer sampleReceiver)) = 1
   \<and> ttlTick (sampleOptions \<lparr> pairCodeTtlSeconds := Some 60 \<rparr>) 5000 (beginTransfer sampleReceiver)
       = beginTransfer sampleReceiver"
  using active_transfers_accounting
    [where r = sampleReceiver and fs = Map.empty and w = True
       and events = "sampleEvents"
       and e = sampleEnv and options = sampleOptions and fin = True
       and s' = "snd (handleIncomingSocket sampleEnv sampleOptions sampleReceiver Map.empty True
                     sampleEvents)"
       and r' = sampleReceiver and n = 0 and now = 5000]
    active_transfers_accounting
    [where r = sampleReceiver and fs = Map.empty and w = True
       and events = "[]" and e = sampleEnv
       and options = "sampleOptions \<lparr> pairCodeTtlSeconds := Some 60 \<rparr>" and fin = True
       and s' = "accepted sampleReceiver Map.empty True []"
       and r' = "beginTransfer sampleReceiver" and n = "Suc 0" and now = 5000]
    sample_reachable
  by (simp add: sample_run sample_count beginTransfer_def)

section \<open>Integrity\<close>

lemma fail_targetPath [simp]: "targetPath (fail m cl s) = targetPath s"
  by (simp add: fail_def Let_def)

lemma release_more [simp]:
  "targetPath (release s) = targetPath s" "resumedFrom (release s) = resumedFrom s"
  by (simp_all add: release_def)

lemma beginTransfer_codes [simp]:
  "currentCode (pairing (beginTransfer r)) = currentCode (pairing r)"
  "previousCode (pairing (beginTransfer r)) = previousCode (pairing r)"
  "previousCodeValidUntilMs (pairing (beginTransfer r)) = previousCodeValidUntilMs (pairing r)"
  "genCalls (beginTransfer r) = genCalls r" "notified (beginTransfer r) = notified r"
  by (simp_all add: beginTransfer_def)

lemma endTransfer_codes [simp]:
  "currentCode (pairing (endTransfer r)) = currentCode (pairing r)"
  "previousCode (pairing (endTransfer r)) = previousCode (pairing r)"
  "previousCodeValidUntilMs (pairing (endTransfer r)) = previousCodeValidUntilMs (pairing r)"
  "genCalls (endTransfer r) = genCalls r" "notified (endTransfer r) = notified r"
  by (simp_all add: endTransfer_def)

lemma promoteFrom_saved:
  assumes "promoteFrom renameError cwd fs tmp preferred i = Inr (savedPath, fs')"
      and "fs tmp = Some n" and "savedPath \<noteq> tmp"
  shows "fs' savedPath = Some n"
  using assms
proof (induction renameError cwd fs tmp preferred i rule: promoteFrom.induct)
  case (1 renameError cwd fs tmp preferred i)
  show ?case
  proof (cases "i < MAX_DUPLICATE_SUFFIX_ATTEMPTS")
    case False
    with "1.prems" show ?thesis by (subst (asm) promoteFrom.simps) simp
  next
    case lt: True
    let ?cand = "duplicatePathWithIndex cwd preferred i"
    show ?thesis
    proof (cases "renameFile renameError fs tmp ?cand")
      case (Inr fs2)
      with "1.prems" lt have "savedPath = ?cand" "fs' = fs2"
        by (subst (asm) promoteFrom.simps, simp add: Let_def)+
      with Inr "1.prems"(2) show ?thesis
        by (auto simp: renameFile_def split: option.splits)
    next
      case (Inl err)
      show ?thesis
      proof (cases err)
        case ENOENT
        with Inl "1.prems" lt show ?thesis by (subst (asm) promoteFrom.simps) (simp add: Let_def)
      next
        case EXDEV
        with Inl "1.prems" lt
        have "savedPath = ?cand" "fs' = rmForce (fs(?cand \<mapsto> n)) tmp"
          by (subst (asm) promoteFrom.simps, simp add: Let_def)+
        with "1.prems"(3) show ?thesis
          by (auto simp: rmForce_def split: option.splits node.splits)
      next
        case EEXIST
        with Inl "1.prems" lt
        have "promoteFrom renameError cwd fs tmp preferred (i + 1) = Inr (savedPath, fs')"
          by (subst (asm) promoteFrom.simps) (simp add: Let_def)
        then show ?thesis
          using lt Inl EEXIST "1.prems"(2,3) by (intro "1.IH"(1)) auto
      next
        case ENOTEMPTY
        with Inl "1.prems" lt
        have "promoteFrom renameError cwd fs tmp preferred (i + 1) = Inr (savedPath, fs')"
          by (subst (asm) promoteFrom.simps) (simp add: Let_def)
        then show ?thesis
          using lt Inl ENOTEMPTY "1.prems"(2,3) by (intro "1.IH"(2)) auto
      next
        case (EOTHER msg)
        with Inl "1.prems" lt show ?thesis by (subst (asm) promoteFrom.simps) (simp add: Let_def)
      qed
    qed
  qed
qed

text \<open>
  C1. Every \<open>ack\<close> with \<open>ok: true\<close> that a handler sends comes after the whole announced
  size has been received and the digest of the bytes hashed (the resumed prefix of the
  temp file, then the payload) has been found equal to the header's, and it carries
  this digest; when the announced size is positive, the saved file (unless its path is
  the temp path itself) holds exactly the bytes hashed. When the handler has run to its
  end with the whole size received and a digest that differs from the header's, the
  temp file is gone and, if the socket is writable, the records sent are \<open>ready\<close> and an
  \<open>ack\<close> with \<open>ok: false\<close> and the message \<open>sha256 mismatch\<close>; on a socket that is not
  writable nothing is sent.
\<close>

theorem ack_integrity:
  assumes run: "handleIncomingSocket e options r fs w events = (fin, s')"
  shows "(\<forall>a. Ack a \<in> set (sent (sock s')) \<and> ack_ok a \<longrightarrow>
            (\<exists>h. header s' = Some h \<and> received s' = fileSize h
                 \<and> e_sha256 e (hasher s') = sha256 h \<and> ack_sha256 a = Some (sha256 h)
                 \<and> (\<forall>p. 0 < fileSize h \<and> ack_savedPath a = Some p \<and> p \<noteq> tempPath s'
                        \<longrightarrow> files s' p = Some (File (hasher s')))))
       \<and> (\<forall>h. fin \<and> header s' = Some h \<and> phase s' = Receiving \<and> received s' = fileSize h
                \<and> e_sha256 e (hasher s') \<noteq> sha256 h \<longrightarrow>
              files s' (tempPath s') = None
              \<and> sent (sock s') =
                  (if w
                   then [Ready \<lparr> ready_ok = True, ready_offset = resumedFrom s', ready_message = None,
                                  ready_savedPath = Some (targetPath s') \<rparr>,
                         Ack \<lparr> ack_ok = False, ack_message = Some ''sha256 mismatch'', ack_sha256 = None,
                               ack_receivedBytes = None, ack_savedPath = None, ack_resumedFrom = None,
                               ack_nextPairCode = None \<rparr>]
                   else []))"
  using handler_outcome [OF run]
proof (elim disjE conjE exE)
  assume "\<not> fin" "before_ready w (rcv (accepted r fs w events)) s'"
  then show ?thesis by (simp add: before_ready_def)
next
  fix h assume "\<not> fin" "receiving e w (rcv (accepted r fs w events)) h s'"
  then show ?thesis by (auto simp: receiving_def)
next
  fix m sf assume "fin" "before_ready w (rcv (accepted r fs w events)) sf" "s' = release (fail m False sf)"
  then show ?thesis by (auto simp: before_ready_def fail_sent)
next
  fix m h sf
  assume "fin" "receiving e w (rcv (accepted r fs w events)) h sf" "received sf \<noteq> fileSize h"
    "s' = release (fail m False sf)"
  then show ?thesis by (auto simp: receiving_def fail_sent)
next
  fix h sf
  assume "fin" and rs: "receiving e w (rcv (accepted r fs w events)) h sf" and "received sf = fileSize h"
    and "e_sha256 e (hasher sf) \<noteq> sha256 h"
    and s': "s' = release (fail ''sha256 mismatch'' True (endFileStream sf))"
  have nf: "\<not> failed (endFileStream sf)" using rs by (simp add: receiving_def)
  have gone: "rmForce (files sf) (tempPath sf) (tempPath sf) = None"
    using rs by (auto simp: receiving_def rmForce_def split: option.splits node.splits)
  show ?thesis
    using rs gone by (auto simp: s' receiving_def fail_sent [OF nf] fail_files [OF nf])
next
  fix m h sf
  assume "fin" and rs: "receiving e w (rcv (accepted r fs w events)) h sf" and "received sf = fileSize h"
    and "e_sha256 e (hasher sf) = sha256 h" and s': "s' = release (fail m False (endFileStream sf))"
  have nf: "\<not> failed (endFileStream sf)" using rs by (simp add: receiving_def)
  show ?thesis
    using rs \<open>e_sha256 e (hasher sf) = sha256 h\<close>
    by (auto simp: s' receiving_def fail_sent [OF nf])
next
  fix h sf savedPath fs' nextPairCode rcv'
  assume "fin" and rs: "receiving e w (rcv (accepted r fs w events)) h sf"
    and eq: "received sf = fileSize h" "e_sha256 e (hasher sf) = sha256 h"
    and pr: "promoteReceivedFile (e_renameError e) (e_cwd e) (files sf) (tempPath sf) (targetPath sf)
               = Inr (savedPath, fs')"
    and s': "s' = release ((endFileStream sf)
                         \<lparr> files := fs', phase := Done, rcv := rcv',
                           sock := socketEnd
                             (Ack \<lparr> ack_ok = True, ack_message = None, ack_sha256 = Some (sha256 h),
                                    ack_receivedBytes = Some (received sf), ack_savedPath = Some savedPath,
                                    ack_resumedFrom = Some (resumedFrom sf), ack_nextPairCode = nextPairCode \<rparr>)
                             (sock sf) \<rparr>)"
  have saved: "fs' savedPath = Some (File (hasher sf))" if "0 < fileSize h" "savedPath \<noteq> tempPath sf"
  proof -
    have held: "files sf (tempPath sf) = Some (File (hasher sf))"
      using rs that(1) by (simp add: receiving_def)
    from pr have "promoteFrom (e_renameError e) (e_cwd e) (files sf) (tempPath sf) (targetPath sf) 0
                    = Inr (savedPath, fs')"
      by (simp add: promoteReceivedFile_def)
    then show ?thesis using held that(2) by (rule promoteFrom_saved)
  qed
  show ?thesis
    using rs eq saved by (auto simp: s' receiving_def socketEnd_def split: if_splits)
qed

theorem ack_integrity_witness:
  "Ack \<lparr> ack_ok = True, ack_message = None, ack_sha256 = Some ''sha:hello'',
                 ack_receivedBytes = Some 5, ack_savedPath = Some ''/recv/a.txt'',
                 ack_resumedFrom = Some 0, ack_nextPairCode = Some ''654321'' \<rparr> \<in> set (sent (sock (snd (handleIncomingSocket sampleEnv sampleOptions sampleReceiver Map.empty True sampleEvents))))
   \<and> header (snd (handleIncomingSocket sampleEnv sampleOptions sampleReceiver Map.empty True sampleEvents)) = Some sampleHeader
   \<and> e_sha256 sampleEnv (hasher (snd (handleIncomingSocket sampleEnv sampleOptions sampleReceiver Map.empty True sampleEvents))) = sha256 sampleHeader
   \<and> 0 < fileSize sampleHeader
   \<and> ''/recv/a.txt'' \<noteq> tempPath (snd (handleIncomingSocket sampleEnv sampleOptions sampleReceiver Map.empty True sampleEvents))
   \<and> files (snd (handleIncomingSocket sampleEnv sampleOptions sampleReceiver Map.empty True sampleEvents)) ''/recv/a.txt''
       = Some (File (hasher (snd (handleIncomingSocket sampleEnv sampleOptions sampleReceiver Map.empty True sampleEvents))))
   \<and> fst (handleIncomingSocket sampleEnv sampleOptions sampleReceiver Map.empty True sampleBadEvents)
   \<and> header (snd (handleIncomingSocket sampleEnv sampleOptions sampleReceiver Map.empty True sampleBadEvents)) = Some sampleHeader
   \<and> phase (snd (handleIncomingSocket sampleEnv sampleOptions sampleReceiver Map.empty True sampleBadEvents)) = Receiving
   \<and> received (snd (handleIncomingSocket sampleEnv sampleOptions sampleReceiver Map.empty True sampleBadEvents)) = fileSize sampleHeader
   \<and> e_sha256 sampleEnv (hasher (snd (handleIncomingSocket sampleEnv sampleOptions sampleReceiver Map.empty True sampleBadEvents))) \<noteq> sha256 sampleHeader
   \<and> files (snd (handleIncomingSocket sampleEnv sampleOptions sampleReceiver Map.empty True sampleBadEvents))
        (tempPath (snd (handleIncomingSocket sampleEnv sampleOptions sampleReceiver Map.empty True sampleBadEvents))) = None
   \<and> sent (sock (snd (handleIncomingSocket sampleEnv sampleOptions sampleReceiver Map.empty True sampleBadEvents)))
       = [Ready \<lparr> ready_ok = True, ready_offset = 0, ready_message = None,
                  ready_savedPath = Some ''/recv/a.txt'' \<rparr>,
          Ack \<lparr> ack_ok = False, ack_message = Some ''sha256 mismatch'', ack_sha256 = None,
                ack_receivedBytes = None, ack_savedPath = None, ack_resumedFrom = None,
                ack_nextPairCode = None \<rparr>]"
  using ack_integrity [OF sample_run, THEN conjunct1, THEN spec, of "\<lparr> ack_ok = True, ack_message = None, ack_sha256 = Some ''sha:hello'',
                 ack_receivedBytes = Some 5, ack_savedPath = Some ''/recv/a.txt'',
                 ack_resumedFrom = Some 0, ack_nextPairCode = Some ''654321'' \<rparr>"]
        ack_integrity [OF sample_run_mismatch [of True], THEN conjunct2, THEN spec, of sampleHeader]
  by (simp add: sample_run sample_run_mismatch sampleHeader_def sample_digest)

text \<open>
  A run in which the digest differs and the socket is not writable: the temp file is
  removed and no record is sent.
\<close>

theorem mismatch_without_ack:
  "fst (handleIncomingSocket sampleEnv sampleOptions sampleReceiver Map.empty False sampleBadEvents)
   \<and> header (snd (handleIncomingSocket sampleEnv sampleOptions sampleReceiver Map.empty False sampleBadEvents)) = Some sampleHeader
   \<and> received (snd (handleIncomingSocket sampleEnv sampleOptions sampleReceiver Map.empty False sampleBadEvents)) = fileSize sampleHeader
   \<and> e_sha256 sampleEnv (hasher (snd (handleIncomingSocket sampleEnv sampleOptions sampleReceiver Map.empty False sampleBadEvents))) \<noteq> sha256 sampleHeader
   \<and> files (snd (handleIncomingSocket sampleEnv sampleOptions sampleReceiver Map.empty False sampleBadEvents))
        (tempPath (snd (handleIncomingSocket sampleEnv sampleOptions sampleReceiver Map.empty False sampleBadEvents))) = None
   \<and> sent (sock (snd (handleIncomingSocket sampleEnv sampleOptions sampleReceiver Map.empty False sampleBadEvents))) = []"
  by (simp add: sample_run_mismatch sampleHeader_def sample_digest)



section \<open>The next pair code\<close>

lemma required_fields [simp]:
  "requiredPairCodeForThisTransfer (fail m cl s) = requiredPairCodeForThisTransfer s"
  "requiredPairCodeForThisTransfer (release s) = requiredPairCodeForThisTransfer s"
  "requiredPairCodeForThisTransfer (endFileStream s) = requiredPairCodeForThisTransfer s"
  by (simp_all add: fail_def release_def endFileStream_def Let_def)

lemma sample_run_open:
  "handleIncomingSocket sampleEnv (sampleOptions \<lparr> rotatePairCodePerTransfer := False \<rparr>)
        (sampleReceiver \<lparr> pairing := (pairing sampleReceiver) \<lparr> currentCode := None \<rparr> \<rparr>)
        Map.empty True sampleEvents
   = (True, \<lparr> rcv = sampleReceiver \<lparr> pairing := (pairing sampleReceiver) \<lparr> currentCode := None \<rparr> \<rparr>,
               files = [''/recv'' \<mapsto> Directory, ''/recv/a.txt'' \<mapsto> File ''hello''],
               sock = \<lparr> writable = False, destroyed = False,
                        sent = [Ready \<lparr> ready_ok = True, ready_offset = 0, ready_message = None,
                                       ready_savedPath = Some ''/recv/a.txt'' \<rparr>,
                                Ack \<lparr> ack_ok = True, ack_message = None, ack_sha256 = Some ''sha:hello'',
                 ack_receivedBytes = Some 5, ack_savedPath = Some ''/recv/a.txt'',
                 ack_resumedFrom = Some 0, ack_nextPairCode = None \<rparr>] \<rparr>,
               reader = \<lparr> buffer = [], ended = False, error = None \<rparr>,
               inbound = [End],
               header = Some sampleHeader,
               targetPath = ''/recv/a.txt'',
               tempPath = ''/recv/a.txt.sha:hello.local-sent.part'',
               fileStream = Some StreamEnded, phase = Done, failed = False,
               resumedFrom = 0, received = 5,
               requiredPairCodeForThisTransfer = None,
               hasher = ''hello'' \<rparr>)"
  by (simp add: sample_unfold)

lemma sample_codes:
  "currentCode (pairing sampleReceiver) = Some ''123456''" "genCalls sampleReceiver = 0"
  "rotatePairCodePerTransfer sampleOptions" "generatePairCode sampleOptions \<noteq> None"
  by (simp_all add: sampleReceiver_def sampleOptions_def)

text \<open>
  C10. Every \<open>ack\<close> with \<open>ok: true\<close> that a handler sends belongs to a transfer whose
  required pair code is the receiver's current code on accept. When a pair code was
  required and per-transfer rotation is not configured (the flag is off or there is no
  generator), the \<open>ack\<close> carries \<open>nextPairCode\<close>, equal to the receiver's current code,
  which has not changed. When the \<open>ack\<close> has no \<open>nextPairCode\<close>, no pair code was required.
\<close>

theorem next_pair_code_in_ack:
  assumes run: "handleIncomingSocket e options r fs w events = (fin, s')"
  shows "\<forall>a. Ack a \<in> set (sent (sock s')) \<and> ack_ok a \<longrightarrow>
           requiredPairCodeForThisTransfer s' = currentCode (pairing r)
         \<and> (truthy (requiredPairCodeForThisTransfer s')
              \<and> \<not> (rotatePairCodePerTransfer options \<and> generatePairCode options \<noteq> None) \<longrightarrow>
                ack_nextPairCode a = currentCode (pairing (rcv s'))
                \<and> currentCode (pairing (rcv s')) = currentCode (pairing r))
         \<and> (ack_nextPairCode a = None \<longrightarrow> \<not> truthy (requiredPairCodeForThisTransfer s'))"
  using handler_outcome [OF run]
proof (elim disjE conjE exE)
  assume "\<not> fin" "before_ready w (rcv (accepted r fs w events)) s'"
  then show ?thesis by (simp add: before_ready_def)
next
  fix h assume "\<not> fin" "receiving e w (rcv (accepted r fs w events)) h s'"
  then show ?thesis by (auto simp: receiving_def)
next
  fix m sf assume "fin" "before_ready w (rcv (accepted r fs w events)) sf" "s' = release (fail m False sf)"
  then show ?thesis by (auto simp: before_ready_def fail_sent)
next
  fix m h sf
  assume "fin" "receiving e w (rcv (accepted r fs w events)) h sf" "received sf \<noteq> fileSize h"
    "s' = release (fail m False sf)"
  then show ?thesis by (auto simp: receiving_def fail_sent)
next
  fix h sf
  assume rs: "receiving e w (rcv (accepted r fs w events)) h sf"
    and s': "s' = release (fail ''sha256 mismatch'' True (endFileStream sf))"
  have nf: "\<not> failed (endFileStream sf)" using rs by (simp add: receiving_def)
  show ?thesis using rs by (auto simp: s' receiving_def fail_sent [OF nf])
next
  fix m h sf
  assume rs: "receiving e w (rcv (accepted r fs w events)) h sf"
    and s': "s' = release (fail m False (endFileStream sf))"
  have nf: "\<not> failed (endFileStream sf)" using rs by (simp add: receiving_def)
  show ?thesis using rs by (auto simp: s' receiving_def fail_sent [OF nf])
next
  fix h sf savedPath fs' nextPairCode rcv'
  assume rs: "receiving e w (rcv (accepted r fs w events)) h sf"
    and ch: "chooseNextPairCode options sf = (nextPairCode, rcv')"
    and s': "s' = release ((endFileStream sf)
                         \<lparr> files := fs', phase := Done, rcv := rcv',
                           sock := socketEnd
                             (Ack \<lparr> ack_ok = True, ack_message = None, ack_sha256 = Some (sha256 h),
                                    ack_receivedBytes = Some (received sf), ack_savedPath = Some savedPath,
                                    ack_resumedFrom = Some (resumedFrom sf), ack_nextPairCode = nextPairCode \<rparr>)
                             (sock sf) \<rparr>)"
  have rq: "requiredPairCodeForThisTransfer sf = currentCode (pairing r)"
    and rc: "rcv sf = beginTransfer r"
    using rs by (simp_all add: receiving_def accepted_def)
  have cur: "currentCode (pairing (rcv sf)) = currentCode (pairing r)"
    using rc by simp
  have kept: "truthy (currentCode (pairing r))
                \<and> \<not> (rotatePairCodePerTransfer options \<and> generatePairCode options \<noteq> None)
              \<Longrightarrow> nextPairCode = currentCode (pairing r) \<and> currentCode (pairing rcv') = currentCode (pairing r)"
    using ch rq cur by (auto simp: chooseNextPairCode_def)
  have absent: "nextPairCode = None \<Longrightarrow> \<not> truthy (currentCode (pairing r))"
    using ch rq cur
    by (auto simp: chooseNextPairCode_def truthy_def split: if_splits prod.splits option.splits)
  show ?thesis
    using rs kept absent rq by (auto simp: s' receiving_def socketEnd_def split: if_splits)
qed

theorem next_pair_code_in_ack_witness:
  "Ack \<lparr> ack_ok = True, ack_message = None, ack_sha256 = Some ''sha:hello'',
                 ack_receivedBytes = Some 5, ack_savedPath = Some ''/recv/a.txt'',
                 ack_resumedFrom = Some 0, ack_nextPairCode = Some ''123456'' \<rparr>
     \<in> set (sent (sock (snd (handleIncomingSocket sampleEnv (sampleOptions \<lparr> rotatePairCodePerTransfer := False \<rparr>) sampleReceiver
        Map.empty True sampleEvents))))
   \<and> truthy (requiredPairCodeForThisTransfer (snd (handleIncomingSocket sampleEnv (sampleOptions \<lparr> rotatePairCodePerTransfer := False \<rparr>) sampleReceiver
        Map.empty True sampleEvents)))
   \<and> \<not> rotatePairCodePerTransfer (sampleOptions \<lparr> rotatePairCodePerTransfer := False \<rparr>)
   \<and> currentCode (pairing (rcv (snd (handleIncomingSocket sampleEnv (sampleOptions \<lparr> rotatePairCodePerTransfer := False \<rparr>) sampleReceiver
        Map.empty True sampleEvents)))) = Some ''123456''
   \<and> currentCode (pairing sampleReceiver) = Some ''123456''
   \<and> Ack \<lparr> ack_ok = True, ack_message = None, ack_sha256 = Some ''sha:hello'',
                 ack_receivedBytes = Some 5, ack_savedPath = Some ''/recv/a.txt'',
                 ack_resumedFrom = Some 0, ack_nextPairCode = None \<rparr>
     \<in> set (sent (sock (snd (handleIncomingSocket sampleEnv (sampleOptions \<lparr> rotatePairCodePerTransfer := False \<rparr>)
        (sampleReceiver \<lparr> pairing := (pairing sampleReceiver) \<lparr> currentCode := None \<rparr> \<rparr>)
        Map.empty True sampleEvents))))
   \<and> \<not> truthy (requiredPairCodeForThisTransfer (snd (handleIncomingSocket sampleEnv (sampleOptions \<lparr> rotatePairCodePerTransfer := False \<rparr>)
        (sampleReceiver \<lparr> pairing := (pairing sampleReceiver) \<lparr> currentCode := None \<rparr> \<rparr>)
        Map.empty True sampleEvents)))"
  using next_pair_code_in_ack [OF sample_run_kept, THEN spec, of "\<lparr> ack_ok = True, ack_message = None, ack_sha256 = Some ''sha:hello'',
                 ack_receivedBytes = Some 5, ack_savedPath = Some ''/recv/a.txt'',
                 ack_resumedFrom = Some 0, ack_nextPairCode = Some ''123456'' \<rparr>"]
        next_pair_code_in_ack [OF sample_run_open, THEN spec, of "\<lparr> ack_ok = True, ack_message = None, ack_sha256 = Some ''sha:hello'',
                 ack_receivedBytes = Some 5, ack_savedPath = Some ''/recv/a.txt'',
                 ack_resumedFrom = Some 0, ack_nextPairCode = None \<rparr>"]
  by (simp add: sample_run_kept sample_run_open sample_codes truthy_def)

section \<open>Rotation after a transfer\<close>



end
